theory Spec2Isabelle
  imports Complex_Main
begin

section \<open>Peak and valley detection on motif-distribution rows (pf\_lib1.py)\<close>

text \<open>
  Shallow embedding of \<^verbatim>\<open>src/pf_lib1.py\<close>. Python numbers are idealised as
  \<^typ>\<open>real\<close>: \<^verbatim>\<open>statistics.mean\<close> and \<^verbatim>\<open>statistics.stdev\<close> compute with exact
  fractions and round only the final result, and that last rounding is not modelled.
  Where a statement depends on the rounding, the decider and the detector are repeated
  with every floating-point operation rounded to binary64.
  Sizes and indices are \<^typ>\<open>nat\<close>; the two sizes are the positive integers of the
  callers (both are the literal 10 in the driver), and the value 0 is modelled with the
  exception Python raises for it.
\<close>

subsection \<open>Exceptions\<close>

datatype error = StatisticsError | ValueError | IndexError

definition bind_err :: "error + 'a \<Rightarrow> ('a \<Rightarrow> error + 'b) \<Rightarrow> error + 'b" where
  "bind_err m f = (case m of Inl e \<Rightarrow> Inl e | Inr a \<Rightarrow> f a)"

subsection \<open>Library primitives used by the module\<close>

text \<open>\<^verbatim>\<open>statistics.mean\<close>: raises StatisticsError on empty data.\<close>

definition mean :: "real list \<Rightarrow> error + real" where
  "mean data =
     (if data = [] then Inl StatisticsError
      else Inr (sum_list data / real (length data)))"

text \<open>\<^verbatim>\<open>statistics.stdev\<close>: the square root of the sample variance; raises
  StatisticsError on fewer than two data points.\<close>

definition stdev :: "real list \<Rightarrow> error + real" where
  "stdev data =
     (if length data < 2 then Inl StatisticsError
      else let xbar = sum_list data / real (length data)
           in Inr (sqrt (sum_list (map (\<lambda>x. (x - xbar)\<^sup>2) data) / real (length data - 1))))"

text \<open>The builtin \<^verbatim>\<open>max\<close> on a list: raises ValueError on an empty one.\<close>

fun py_max :: "real list \<Rightarrow> error + real" where
  "py_max [] = Inl ValueError"
| "py_max (x # xs) = Inr (fold max xs x)"

text \<open>\<^verbatim>\<open>range(0, stop, step)\<close> for \<open>step \<ge> 0\<close>: a zero step raises ValueError.\<close>

definition py_range :: "nat \<Rightarrow> nat \<Rightarrow> error + nat list" where
  "py_range stop step =
     (if step = 0 then Inl ValueError
      else Inr (map (\<lambda>k. k * step) [0 ..< (stop + step - 1) div step]))"

text \<open>The slice \<^verbatim>\<open>lst[i:j]\<close> for \<open>0 \<le> i \<le> j\<close>; it is clipped at the end of the list.\<close>

definition slice :: "'a list \<Rightarrow> nat \<Rightarrow> nat \<Rightarrow> 'a list" where
  "slice lst i j = take (j - i) (drop i lst)"

subsection \<open>\<^verbatim>\<open>_reduce_data_for_peak_detection\<close>\<close>

text \<open>The generator \<^verbatim>\<open>bucket_reduction\<close>: the chunks \<^verbatim>\<open>lst[i:i + n]\<close> for
  \<^verbatim>\<open>i in range(0, len(lst), n)\<close>.\<close>

definition bucket_reduction :: "'a list \<Rightarrow> nat \<Rightarrow> error + 'a list list" where
  "bucket_reduction lst n =
     bind_err (py_range (length lst) n) (\<lambda>is. Inr (map (\<lambda>i. slice lst i (i + n)) is))"

text \<open>The generator \<^verbatim>\<open>bucket_smooth\<close>: the windows \<^verbatim>\<open>lst[i:i + n]\<close> for
  \<^verbatim>\<open>i in range(0, len(lst) - n, 1)\<close>. A negative stop gives the empty range, as the
  truncated subtraction of \<^typ>\<open>nat\<close> does.\<close>

definition bucket_smooth :: "'a list \<Rightarrow> nat \<Rightarrow> 'a list list" where
  "bucket_smooth lst n = map (\<lambda>i. slice lst i (i + n)) [0 ..< length lst - n]"

text \<open>The second loop: append the mean of every window, stopping at the first
  exception.\<close>

fun smooth_loop :: "real list list \<Rightarrow> real list \<Rightarrow> error + real list" where
  "smooth_loop [] smoothed_row = Inr smoothed_row"
| "smooth_loop (w # ws) smoothed_row =
     bind_err (mean w) (\<lambda>m. smooth_loop ws (smoothed_row @ [m]))"

definition reduce_data_for_peak_detection :: "real list \<Rightarrow> nat \<Rightarrow> nat \<Rightarrow> error + real list" where
  "reduce_data_for_peak_detection raw_row reduce_size smooth_size =
     bind_err (bucket_reduction raw_row reduce_size) (\<lambda>chunks.
       let bucketed_row = map sum_list chunks
       in smooth_loop (bucket_smooth bucketed_row smooth_size) [])"

text \<open>The reference definition of the reducer, following the specification's words:
  consecutive chunks of \<open>reduce_size\<close> elements, the last one possibly shorter, each
  replaced by its sum; then the mean of every window of width \<open>smooth_size\<close> that starts
  at an index in \<open>[0, len(B) - smooth_size)\<close>.\<close>

function spec_chunks :: "nat \<Rightarrow> 'a list \<Rightarrow> 'a list list" where
  "spec_chunks n xs =
     (if n = 0 \<or> xs = [] then [] else take n xs # spec_chunks n (drop n xs))"
  by pat_completeness auto
termination
  by (relation "measure (\<lambda>(n, xs). length xs)") auto

declare spec_chunks.simps [simp del]

definition spec_bucketed :: "real list \<Rightarrow> nat \<Rightarrow> real list" where
  "spec_bucketed raw_row reduce_size = map sum_list (spec_chunks reduce_size raw_row)"

definition spec_reduce :: "real list \<Rightarrow> nat \<Rightarrow> nat \<Rightarrow> real list" where
  "spec_reduce raw_row reduce_size smooth_size =
     (let B = spec_bucketed raw_row reduce_size
      in map (\<lambda>i. sum_list (take smooth_size (drop i B)) / real smooth_size)
           [0 ..< length B - smooth_size])"

subsection \<open>\<^verbatim>\<open>_determine_scans\<close>\<close>

definition scan_threshold :: nat where
  "scan_threshold = 5"

text \<open>The body of the first loop: the signal level appended for one element.\<close>

definition signal_level :: "real \<Rightarrow> real \<Rightarrow> real \<Rightarrow> int" where
  "signal_level mean_y stdev_15 i =
     (if i > mean_y + stdev_15 then 1
      else if i < mean_y - stdev_15 then - 1
      else 0)"

text \<open>\<^verbatim>\<open>itertools.groupby\<close> without a key function: maximal blocks of consecutive
  equal elements, each with its key.\<close>

function groupby :: "'a list \<Rightarrow> ('a \<times> 'a list) list" where
  "groupby [] = []"
| "groupby (x # xs) =
     (x, x # takeWhile (\<lambda>y. y = x) xs) # groupby (dropWhile (\<lambda>y. y = x) xs)"
  by pat_completeness auto
termination
  by (relation "measure length") (auto simp: length_dropWhile_le less_Suc_eq_le)

text \<open>\<^verbatim>\<open>[(k, sum(1 for i in g)) for k, g in groupby(signals)]\<close>\<close>

definition grouped_signal_counts :: "int list \<Rightarrow> (int \<times> nat) list" where
  "grouped_signal_counts signals = map (\<lambda>(k, g). (k, length g)) (groupby signals)"

text \<open>The second loop, over the grouped counts, with the two flags as its state.\<close>

fun scan_loop :: "(int \<times> nat) list \<Rightarrow> bool \<times> bool \<Rightarrow> bool \<times> bool" where
  "scan_loop [] flags = flags"
| "scan_loop ((signal_value, cnt) # rest) (peak_scan, valley_scan) =
     scan_loop rest
       (if signal_value = 1 \<and> cnt > scan_threshold then True else peak_scan,
        if signal_value = - 1 \<and> cnt > scan_threshold then True else valley_scan)"

definition determine_scans :: "real list \<Rightarrow> error + bool \<times> bool" where
  "determine_scans row =
     bind_err (mean row) (\<lambda>mean_y.
     bind_err (stdev row) (\<lambda>stdev_y.
       let stdev_15 = stdev_y * 1.5;
           signals = map (signal_level mean_y stdev_15) row
       in Inr (scan_loop (grouped_signal_counts signals) (False, False))))"

text \<open>Run-length encoding as the specification words it: (level, run-length) pairs in
  the original order. It is defined independently of \<^const>\<open>groupby\<close>, by extending the
  first run of the encoded tail.\<close>

fun spec_rle :: "'a list \<Rightarrow> ('a \<times> nat) list" where
  "spec_rle [] = []"
| "spec_rle (x # xs) =
     (case spec_rle xs of
        [] \<Rightarrow> [(x, 1)]
      | (y, n) # rest \<Rightarrow> if x = y then (y, Suc n) # rest else (x, 1) # (y, n) # rest)"

definition spec_has_long_run :: "int \<Rightarrow> int list \<Rightarrow> bool" where
  "spec_has_long_run level levels = list_ex (\<lambda>(k, n). k = level \<and> n > 5) (spec_rle levels)"

subsection \<open>\<^verbatim>\<open>find_peaks_and_or_valleys\<close>\<close>

text \<open>
  \<^verbatim>\<open>scipy.signal.find_peaks\<close> is an external library function. It is a parameter of the
  model: given the signal and the keyword arguments height, distance, prominence and
  width it returns the indices found and a dictionary of properties, of a type \<open>'p\<close>
  that is left open.
\<close>

type_synonym 'p search = "real list \<Rightarrow> real \<Rightarrow> nat \<Rightarrow> real \<Rightarrow> real \<Rightarrow> nat list \<times> 'p"

text \<open>The arguments of one call of the search: signal, height, distance, prominence,
  width.\<close>

type_synonym search_call = "real list \<times> real \<times> nat \<times> real \<times> real"

text \<open>The properties variables start as the empty list \<^verbatim>\<open>[]\<close> and are overwritten
  with the dictionary of a search that runs.\<close>

datatype 'p properties = Empty_list | Properties 'p

text \<open>The returned tuple, and with it the calls of the search that were made, in order
  (the field \<open>search_calls\<close> records an effect; it is not part of the Python tuple).\<close>

record 'p detection =
  reduced_row :: "real list"
  peaks :: "nat list"
  valleys :: "nat list"
  peak_properties :: "'p properties"
  valley_properties :: "'p properties"
  search_calls :: "search_call list"

text \<open>Lines 77 to 106, everything after the reduction. \<^verbatim>\<open>median_y\<close> and
  \<^verbatim>\<open>stdev_20\<close> are computed and never used; \<^verbatim>\<open>median\<close> raises on empty data only,
  where \<^verbatim>\<open>mean\<close> has raised before it.\<close>

definition scan_reduced_row :: "'p search \<Rightarrow> real list \<Rightarrow> error + 'p detection" where
  "scan_reduced_row find_peaks row =
     bind_err (determine_scans row) (\<lambda>(peak_scan, valley_scan).
     bind_err (py_max row) (\<lambda>ymax.
     bind_err (mean row) (\<lambda>mean_y.
     bind_err (stdev row) (\<lambda>stdev_y.
       let stdev_15 = stdev_y * 1.5;
           y = row;
           d0 = \<lparr>reduced_row = row, peaks = [], valleys = [],
                 peak_properties = Empty_list, valley_properties = Empty_list,
                 search_calls = []\<rparr>;
           d1 = (if peak_scan then
                   (let r = find_peaks y (mean_y + stdev_15) 20 4 3
                    in d0\<lparr>peaks := fst r, peak_properties := Properties (snd r),
                          search_calls := search_calls d0 @ [(y, mean_y + stdev_15, 20, 4, 3)]\<rparr>)
                 else d0);
           d2 = (if valley_scan then
                   (let y_inverse = map (\<lambda>v. ymax - v) y;
                        mean_y_inverse = ymax - mean_y;
                        r = find_peaks y_inverse (mean_y_inverse + stdev_15) 20 4 3
                    in d1\<lparr>valleys := fst r, valley_properties := Properties (snd r),
                          search_calls := search_calls d1
                            @ [(y_inverse, mean_y_inverse + stdev_15, 20, 4, 3)]\<rparr>)
                 else d1)
       in Inr d2))))"

definition find_peaks_and_or_valleys ::
  "'p search \<Rightarrow> real list \<Rightarrow> nat \<Rightarrow> nat \<Rightarrow> error + 'p detection" where
  "find_peaks_and_or_valleys find_peaks raw_row reduce_size smooth_size =
     bind_err (reduce_data_for_peak_detection raw_row reduce_size smooth_size)
       (scan_reduced_row find_peaks)"

subsection \<open>\<^verbatim>\<open>categorize_msd_file_into_tf_regulation\<close>\<close>

text \<open>Decimal text of an integer, as \<^verbatim>\<open>'{}'.format\<close> prints it.\<close>

definition digit_char :: "nat \<Rightarrow> char" where
  "digit_char d = ''0123456789'' ! d"

function str_nat :: "nat \<Rightarrow> string" where
  "str_nat n = (if n < 10 then [digit_char n] else str_nat (n div 10) @ [digit_char (n mod 10)])"
  by pat_completeness auto
termination
  by (relation "measure (\<lambda>n. n)") auto

declare str_nat.simps [simp del]

definition str_int :: "int \<Rightarrow> string" where
  "str_int i = (if i < 0 then CHR ''-'' # str_nat (nat (- i)) else str_nat (nat i))"

text \<open>\<^verbatim>\<open>s.replace(old, new)\<close>: every non-overlapping occurrence, from the left.\<close>

function str_replace :: "string \<Rightarrow> string \<Rightarrow> string \<Rightarrow> string" where
  "str_replace s old new =
     (if old = [] then new @ concat (map (\<lambda>c. c # new) s)
      else if s = [] then []
      else if take (length old) s = old then new @ str_replace (drop (length old) s) old new
      else hd s # str_replace (tl s) old new)"
  by pat_completeness auto
termination
  by (relation "measure (\<lambda>(s, old, new). length s)") auto

declare str_replace.simps [simp del]

text \<open>\<^verbatim>\<open>ids[i]\<close> for \<open>i \<ge> 0\<close>: raises IndexError past the end.\<close>

definition py_index :: "'a list \<Rightarrow> nat \<Rightarrow> error + 'a" where
  "py_index xs i = (if i < length xs then Inr (xs ! i) else Inl IndexError)"

text \<open>The two local constants of the driver.\<close>

definition cfg_reduce_size :: nat where
  "cfg_reduce_size = 10"

definition cfg_smooth_size :: nat where
  "cfg_smooth_size = 10"

text \<open>Lines 136 to 145.\<close>

definition category_of :: "nat \<Rightarrow> nat \<Rightarrow> string" where
  "category_of peak_count valley_count =
     (if peak_count = 0 \<and> valley_count = 0 then ''inactive''
      else if peak_count = 1 \<and> valley_count = 0 then ''active''
      else if peak_count = 0 \<and> valley_count = 1 then ''repressed''
      else if (peak_count = 2 \<or> peak_count = 4) \<and> valley_count = 0 then ''offset''
      else ''uncategorized'')"

text \<open>The loops of lines 149 to 156: \<^verbatim>\<open>int(smooth_size/2)\<close> truncates the quotient.\<close>

fun bp_loop :: "nat list \<Rightarrow> int list \<Rightarrow> int list" where
  "bp_loop [] bp = bp"
| "bp_loop (old_loc # rest) bp =
     bp_loop rest
       (bp @ [(int old_loc + int (cfg_smooth_size div 2)) * int cfg_reduce_size - 1500])"

text \<open>The loop of lines 158 to 162 over \<^verbatim>\<open>range(4)\<close>.\<close>

fun peak_fields_loop :: "nat list \<Rightarrow> int list \<Rightarrow> string \<Rightarrow> string" where
  "peak_fields_loop [] peaks_bp line = line"
| "peak_fields_loop (i # is) peaks_bp line =
     peak_fields_loop is peaks_bp
       (if length peaks_bp > i then line @ '','' @ str_int (peaks_bp ! i) else line @ '','')"

text \<open>Lines 130 to 167 for one row: the text written for the detected peaks and
  valleys, the cleaned identifier and the sample tag.\<close>

definition tf_regulation_line :: "nat list \<Rightarrow> nat list \<Rightarrow> string \<Rightarrow> string \<Rightarrow> string" where
  "tf_regulation_line found_peaks found_valleys ident sra =
     (let peak_count = length found_peaks;
          valley_count = length found_valleys;
          category = category_of peak_count valley_count;
          line0 = str_nat peak_count @ '','' @ str_nat valley_count @ '','' @ ident @ '',''
                    @ sra @ '','' @ category;
          peaks_bp = bp_loop found_peaks [];
          valleys_bp = bp_loop found_valleys [];
          line1 = peak_fields_loop [0 ..< 4] peaks_bp line0;
          line2 = (if length valleys_bp > 0 then line1 @ '','' @ str_int (valleys_bp ! 0)
                   else line1 @ '','')
      in line2 @ [CHR 0x0A])"

text \<open>The state of the run: the dictionary \<^verbatim>\<open>rows_by_counts\<close> (in insertion order)
  and the lines written to the output file so far.\<close>

record run_state =
  rows_by_counts :: "((nat \<times> nat) \<times> nat list) list"
  written :: "string list"

definition note_row :: "nat \<times> nat \<Rightarrow> nat \<Rightarrow> ((nat \<times> nat) \<times> nat list) list
    \<Rightarrow> ((nat \<times> nat) \<times> nat list) list" where
  "note_row key i d =
     (let d' = (if map_of d key = None then d @ [(key, [])] else d)
      in map (\<lambda>(k, v). if k = key then (k, v @ [i]) else (k, v)) d')"

text \<open>
  One iteration of the main loop. The module neither imports \<^verbatim>\<open>os\<close> nor defines
  \<^verbatim>\<open>read_mds_file\<close>, so what they deliver is a parameter: the sample tag \<open>sra\<close>, the
  identifiers \<open>ids\<close> and the rows \<open>raw_data\<close>. No exception is caught anywhere in the
  module, so an exception in an iteration ends the run.
\<close>

definition categorize_row ::
  "'p search \<Rightarrow> string \<Rightarrow> string list \<Rightarrow> real list list \<Rightarrow> nat \<Rightarrow> run_state
     \<Rightarrow> error + run_state" where
  "categorize_row find_peaks sra ids raw_data i st =
     (let raw_data_row = raw_data ! i
      in bind_err (find_peaks_and_or_valleys find_peaks raw_data_row cfg_reduce_size cfg_smooth_size)
        (\<lambda>d.
           let counts = (length (peaks d), length (valleys d));
               dict = note_row counts i (rows_by_counts st)
           in bind_err (py_index ids i) (\<lambda>raw_id.
                let ident = str_replace (str_replace raw_id ''HO_'' []) ''_HUMAN.H10MO'' []
                in Inr \<lparr>rows_by_counts = dict,
                        written = written st
                          @ [tf_regulation_line (peaks d) (valleys d) ident sra]\<rparr>)))"

text \<open>The main loop over \<^verbatim>\<open>range(0, len(raw_data))\<close>; the second component is the
  exception that ended the run, if any.\<close>

fun categorize_loop ::
  "'p search \<Rightarrow> string \<Rightarrow> string list \<Rightarrow> real list list \<Rightarrow> nat list \<Rightarrow> run_state
     \<Rightarrow> run_state \<times> error option" where
  "categorize_loop find_peaks sra ids raw_data [] st = (st, None)"
| "categorize_loop find_peaks sra ids raw_data (i # is) st =
     (case categorize_row find_peaks sra ids raw_data i st of
        Inl e \<Rightarrow> (st, Some e)
      | Inr st' \<Rightarrow> categorize_loop find_peaks sra ids raw_data is st')"

definition categorize_msd_file_into_tf_regulation ::
  "'p search \<Rightarrow> string \<Rightarrow> string list \<Rightarrow> real list list \<Rightarrow> run_state \<times> error option" where
  "categorize_msd_file_into_tf_regulation find_peaks sra ids raw_data =
     categorize_loop find_peaks sra ids raw_data [0 ..< length raw_data]
       \<lparr>rows_by_counts = [], written = []\<rparr>"

text \<open>One position field of the record as the specification describes it: the
  converted position number \<open>k\<close> if there is one, the empty text otherwise.\<close>

definition spec_position_field :: "nat list \<Rightarrow> nat \<Rightarrow> string" where
  "spec_position_field found k =
     (if k < length found then str_int ((int (found ! k) + 5) * 10 - 1500) else [])"

subsection \<open>The threshold arithmetic in double precision\<close>

text \<open>
  Python floats and numpy's float64 are IEEE binary64 numbers. The definitions of
  this subsection repeat the decider and the detector with the result of every
  floating-point operation rounded, so that statements about the thresholds can be
  checked against the arithmetic the program runs. Only the normal range is modelled
  (no overflow, no subnormal numbers).
\<close>

text \<open>The nearest integer, ties to the even one.\<close>

definition round_even :: "real \<Rightarrow> int" where
  "round_even x =
     (let f = \<lfloor>x\<rfloor>; r = x - of_int f
      in if r < 1 / 2 then f else if r > 1 / 2 then f + 1 else if even f then f else f + 1)"

text \<open>Rounding to the nearest binary64 number, ties to even: 53 significant bits
  at the exponent of the argument.\<close>

definition dbl :: "real \<Rightarrow> real" where
  "dbl x =
     (if x = 0 then 0
      else let e = \<lfloor>log 2 \<bar>x\<bar>\<rfloor>
           in of_int (round_even (x / 2 powi (e - 52))) * 2 powi (e - 52))"

text \<open>\<^verbatim>\<open>statistics.mean\<close> on floats: the exact rational mean, rounded once.\<close>

definition mean_dbl :: "real list \<Rightarrow> error + real" where
  "mean_dbl data =
     (if data = [] then Inl StatisticsError
      else Inr (dbl (sum_list data / real (length data))))"

text \<open>\<^verbatim>\<open>statistics.stdev\<close> on floats (CPython 3.11): the exact rational sample
  variance, then its correctly rounded square root.\<close>

definition stdev_dbl :: "real list \<Rightarrow> error + real" where
  "stdev_dbl data =
     (if length data < 2 then Inl StatisticsError
      else let xbar = sum_list data / real (length data)
           in Inr (dbl (sqrt (sum_list (map (\<lambda>x. (x - xbar)\<^sup>2) data)
                              / real (length data - 1)))))"

text \<open>The loop body of \<^verbatim>\<open>_determine_scans\<close>: the two band limits are float sums.\<close>

definition signal_level_dbl :: "real \<Rightarrow> real \<Rightarrow> real \<Rightarrow> int" where
  "signal_level_dbl mean_y stdev_15 i =
     (if i > dbl (mean_y + stdev_15) then 1
      else if i < dbl (mean_y - stdev_15) then - 1
      else 0)"

definition determine_scans_dbl :: "real list \<Rightarrow> error + bool \<times> bool" where
  "determine_scans_dbl row =
     bind_err (mean_dbl row) (\<lambda>mean_y.
     bind_err (stdev_dbl row) (\<lambda>stdev_y.
       let stdev_15 = dbl (stdev_y * 1.5);
           signals = map (signal_level_dbl mean_y stdev_15) row
       in Inr (scan_loop (grouped_signal_counts signals) (False, False))))"

text \<open>Lines 77 to 106 with the float operations rounded: \<^verbatim>\<open>ymax - y\<close> elementwise,
  \<^verbatim>\<open>ymax - mean_y\<close>, and the two heights.\<close>

definition scan_reduced_row_dbl :: "'p search \<Rightarrow> real list \<Rightarrow> error + 'p detection" where
  "scan_reduced_row_dbl find_peaks row =
     bind_err (determine_scans_dbl row) (\<lambda>(peak_scan, valley_scan).
     bind_err (py_max row) (\<lambda>ymax.
     bind_err (mean_dbl row) (\<lambda>mean_y.
     bind_err (stdev_dbl row) (\<lambda>stdev_y.
       let stdev_15 = dbl (stdev_y * 1.5);
           y = row;
           d0 = \<lparr>reduced_row = row, peaks = [], valleys = [],
                 peak_properties = Empty_list, valley_properties = Empty_list,
                 search_calls = []\<rparr>;
           d1 = (if peak_scan then
                   (let r = find_peaks y (dbl (mean_y + stdev_15)) 20 4 3
                    in d0\<lparr>peaks := fst r, peak_properties := Properties (snd r),
                          search_calls := search_calls d0
                            @ [(y, dbl (mean_y + stdev_15), 20, 4, 3)]\<rparr>)
                 else d0);
           d2 = (if valley_scan then
                   (let y_inverse = map (\<lambda>v. dbl (ymax - v)) y;
                        mean_y_inverse = dbl (ymax - mean_y);
                        r = find_peaks y_inverse (dbl (mean_y_inverse + stdev_15)) 20 4 3
                    in d1\<lparr>valleys := fst r, valley_properties := Properties (snd r),
                          search_calls := search_calls d1
                            @ [(y_inverse, dbl (mean_y_inverse + stdev_15), 20, 4, 3)]\<rparr>)
                 else d1)
       in Inr d2))))"

text \<open>The row \<^verbatim>\<open>[0.02]*8 + [0.29]*4 + [0.11]*43\<close>, each literal as the binary64
  number it denotes.\<close>

definition tie_row :: "real list" where
  "tie_row = replicate 8 (5764607523034235 / 2 ^ 58) @ replicate 4 (5224175567749775 / 2 ^ 54)
     @ replicate 43 (7926335344172073 / 2 ^ 56)"

text \<open>The example row shifted by 4: six points at 6, thirty-seven at 4, six at 2.\<close>

definition shifted_row :: "real list" where
  "shifted_row = replicate 6 6 @ replicate 37 4 @ replicate 6 2"

text \<open>The output record as the specification describes it: the fields
  peak count, valley count, cleaned identifier, sample tag, category, four peak
  positions and one valley position, separated by commas and ended by a line break.\<close>

fun join_commas :: "string list \<Rightarrow> string" where
  "join_commas [] = []"
| "join_commas [f] = f"
| "join_commas (f # g # fs) = f @ '','' @ join_commas (g # fs)"

definition spec_record_line :: "nat list \<Rightarrow> nat list \<Rightarrow> string \<Rightarrow> string \<Rightarrow> string" where
  "spec_record_line ps vs ident sra =
     join_commas
       [str_nat (length ps), str_nat (length vs), ident, sra, category_of (length ps) (length vs),
        spec_position_field ps 0, spec_position_field ps 1, spec_position_field ps 2,
        spec_position_field ps 3, spec_position_field vs 0]
     @ [CHR 0x0A]"

text \<open>The identifier clean-up of line 135, named for use in the statements below.\<close>

definition clean_id :: "string \<Rightarrow> string" where
  "clean_id raw_id = str_replace (str_replace raw_id ''HO_'' []) ''_HUMAN.H10MO'' []"

text \<open>The signal level of one element as the specification words it, from the mean
  \<open>m\<close> and the standard deviation \<open>s\<close>.\<close>

definition spec_level :: "real \<Rightarrow> real \<Rightarrow> real \<Rightarrow> int" where
  "spec_level m s v = (if v > m + 1.5 * s then 1 else if v < m - 1.5 * s then - 1 else 0)"

text \<open>An example reduced row: six points at 2, thirty-seven at 0, six at -2. Its
  mean is 0 and its sample standard deviation is 1.\<close>

definition example_row :: "real list" where
  "example_row = replicate 6 2 @ replicate 37 0 @ replicate 6 (- 2)"


text \<open>A stand-in for the external search in examples: the indices whose value exceeds
  the height, and no properties.\<close>

definition example_search :: "unit search" where
  "example_search y h d p w = (filter (\<lambda>i. y ! i > h) [0 ..< length y], ())"


section \<open>Properties\<close>

subsection \<open>Auxiliary facts\<close>

lemma bind_err_simps [simp]:
  "bind_err (Inl e) f = Inl e"
  "bind_err (Inr a) f = f a"
  by (simp_all add: bind_err_def)

lemma ceil_div_step:
  assumes "0 < n" "0 < (l::nat)"
  shows "(l + n - 1) div n = Suc ((l - n + n - 1) div n)"
proof (cases "n \<le> l")
  case True
  have a: "l + n - 1 = (l - 1) + n" using assms by arith
  have b: "l - n + n - 1 = l - 1" using True by arith
  have "((l - 1) + n) div n = Suc ((l - 1) div n)"
    using assms(1) by (simp only: div_add_self2)
  then show ?thesis unfolding a b .
next
  case False
  have a: "l - n + n - 1 = n - 1" using False by arith
  have b: "(n - 1) div n = 0" using assms(1) by (intro div_less) arith
  have c: "l + n - 1 = (l - 1) + n" using assms by arith
  have d: "(l - 1) div n = 0" using False by (intro div_less) arith
  have "((l - 1) + n) div n = Suc ((l - 1) div n)"
    using assms(1) by (simp only: div_add_self2)
  then show ?thesis unfolding a b c d .
qed

lemma range_chunks:
  "0 < n \<Longrightarrow>
   map (\<lambda>k. slice lst (k * n) (k * n + n)) [0 ..< (length lst + n - 1) div n]
     = spec_chunks n lst"
proof (induction n lst rule: spec_chunks.induct)
  case (1 n xs)
  show ?case
  proof (cases "xs = []")
    case True
    then show ?thesis using 1(2) by (simp add: spec_chunks.simps)
  next
    case False
    with 1(2) have len: "0 < length xs" by simp
    have IH: "map (\<lambda>k. slice (drop n xs) (k * n) (k * n + n)) [0 ..< (length (drop n xs) + n - 1) div n]
       = spec_chunks n (drop n xs)"
      using 1(1) False 1(2) by simp
    have step: "(length xs + n - 1) div n = Suc ((length (drop n xs) + n - 1) div n)"
      using ceil_div_step [OF 1(2) len] by simp
    have sl: "\<And>k. slice xs (Suc k * n) (Suc k * n + n) = slice (drop n xs) (k * n) (k * n + n)"
      by (simp add: slice_def add.commute)
    have "map (\<lambda>k. slice xs (k * n) (k * n + n)) [0 ..< Suc ((length (drop n xs) + n - 1) div n)]
      = slice xs 0 n # map (\<lambda>k. slice (drop n xs) (k * n) (k * n + n)) [0 ..< (length (drop n xs) + n - 1) div n]"
      unfolding map_upt_Suc sl by simp
    also have "\<dots> = take n xs # spec_chunks n (drop n xs)"
      unfolding IH by (simp add: slice_def)
    also have "\<dots> = spec_chunks n xs"
      using False 1(2) spec_chunks.simps [of n xs] by simp
    finally show ?thesis unfolding step .
  qed
qed

lemma bucket_reduction_chunks:
  "0 < n \<Longrightarrow> bucket_reduction lst n = Inr (spec_chunks n lst)"
  using range_chunks [of n lst]
  by (simp add: bucket_reduction_def py_range_def comp_def)

lemma smooth_loop_full:
  "list_all (\<lambda>w. w \<noteq> []) ws \<Longrightarrow>
   smooth_loop ws acc = Inr (acc @ map (\<lambda>w. sum_list w / real (length w)) ws)"
  by (induction ws arbitrary: acc) (simp_all add: mean_def)

lemma bucket_smooth_windows:
  "bucket_smooth B n = map (\<lambda>i. take n (drop i B)) [0 ..< length B - n]"
  by (simp add: bucket_smooth_def slice_def)

lemma reduce_eq_spec:
  assumes "0 < reduce_size" "0 < smooth_size"
  shows "reduce_data_for_peak_detection raw_row reduce_size smooth_size
           = Inr (spec_reduce raw_row reduce_size smooth_size)"
proof -
  define B where "B = map sum_list (spec_chunks reduce_size raw_row)"
  have ne: "list_all (\<lambda>w. w \<noteq> []) (bucket_smooth B smooth_size)"
    using assms(2) by (auto simp: bucket_smooth_windows list_all_iff)
  have "reduce_data_for_peak_detection raw_row reduce_size smooth_size
          = smooth_loop (bucket_smooth B smooth_size) []"
    using assms(1)
    by (simp add: reduce_data_for_peak_detection_def bucket_reduction_chunks B_def)
  also have "\<dots> = Inr (map (\<lambda>w. sum_list w / real (length w)) (bucket_smooth B smooth_size))"
    using smooth_loop_full [OF ne, of "[]"] by simp
  also have "map (\<lambda>w. sum_list w / real (length w)) (bucket_smooth B smooth_size)
          = map (\<lambda>i. sum_list (take smooth_size (drop i B)) / real smooth_size) [0 ..< length B - smooth_size]"
    by (simp add: bucket_smooth_windows comp_def min_def)
  finally show ?thesis
    by (simp add: spec_reduce_def spec_bucketed_def B_def)
qed


lemma spec_chunks_length:
  "0 < n \<Longrightarrow> length (spec_chunks n xs) = (length xs + n - 1) div n"
  using range_chunks [of n xs, symmetric] by simp

lemma reduce_length:
  assumes "0 < rs" "0 < ss"
  shows "\<exists>out. reduce_data_for_peak_detection raw rs ss = Inr out
           \<and> length out = (length raw + rs - 1) div rs - ss"
  using assms reduce_eq_spec [OF assms, of raw]
  by (simp add: spec_reduce_def spec_bucketed_def spec_chunks_length)

lemma ceil_div_cases:
  assumes "0 < (n::nat)"
  shows "(l + n - 1) div n = (if n dvd l then l div n else l div n + 1)"
proof -
  obtain m where n: "n = Suc m" using assms by (cases n) auto
  define q where "q = l div n"
  define r where "r = l mod n"
  have l: "l = r + q * n" and r: "r < n" using assms by (simp_all add: q_def r_def)
  have "l + n - 1 = (r + m) + q * n" using l n by simp
  then have "(l + n - 1) div n = ((r + m) + q * n) div n" by simp
  also have "\<dots> = q + (r + m) div n"
    using assms by (simp only: div_mult_self1 [of n "r + m" q])
  finally have c: "(l + n - 1) div n = q + (r + m) div n" .
  show ?thesis
  proof (cases "r = 0")
    case True
    then have "n dvd l" by (simp add: r_def dvd_eq_mod_eq_0)
    moreover have "(r + m) div n = 0" using True n by simp
    ultimately show ?thesis using c by (simp add: q_def)
  next
    case False
    then have "\<not> n dvd l" by (simp add: r_def dvd_eq_mod_eq_0)
    moreover have "(r + m) div n = 1"
    proof -
      have "r + m = (r - 1) + 1 * n" using False n by simp
      then have "(r + m) div n = ((r - 1) + 1 * n) div n" by simp
      also have "\<dots> = 1 + (r - 1) div n"
        using assms by (simp only: div_mult_self1 [of n "r - 1" 1])
      also have "(r - 1) div n = 0" using r by simp
      finally show ?thesis by simp
    qed
    ultimately show ?thesis using c by (simp add: q_def)
  qed
qed


lemma spec_rle_Cons:
  "spec_rle (x # xs)
     = (x, Suc (length (takeWhile (\<lambda>y. y = x) xs))) # spec_rle (dropWhile (\<lambda>y. y = x) xs)"
proof (induction xs arbitrary: x)
  case Nil
  show ?case by simp
next
  case (Cons a as)
  have tail: "spec_rle (a # as)
     = (a, Suc (length (takeWhile (\<lambda>y. y = a) as))) # spec_rle (dropWhile (\<lambda>y. y = a) as)"
    by (rule Cons.IH)
  have unf: "spec_rle (x # a # as)
     = (case spec_rle (a # as) of
          [] \<Rightarrow> [(x, 1)]
        | (y, n) # rest \<Rightarrow> if x = y then (y, Suc n) # rest else (x, 1) # (y, n) # rest)"
    by (rule spec_rle.simps(2))
  show ?case
  proof (cases "a = x")
    case True
    then show ?thesis unfolding unf tail by simp
  next
    case False
    then show ?thesis unfolding unf tail by (simp add: tail del: spec_rle.simps(2))
  qed
qed

lemma groupby_counts_rle:
  "map (\<lambda>(k, g). (k, length g)) (groupby xs) = spec_rle xs"
proof (induction xs rule: groupby.induct)
  case 1
  show ?case by simp
next
  case (2 x xs)
  show ?case
    unfolding spec_rle_Cons using 2 by simp
qed

lemma scan_loop_flags:
  "scan_loop gs (p, v)
     = (p \<or> list_ex (\<lambda>(k, n). k = 1 \<and> n > 5) gs,
        v \<or> list_ex (\<lambda>(k, n). k = - 1 \<and> n > 5) gs)"
  by (induction gs arbitrary: p v) (auto simp: scan_threshold_def)

lemma rle_run_le_count:
  "(k, n) \<in> set (spec_rle xs) \<Longrightarrow> n \<le> length (filter (\<lambda>y. y = k) xs)"
proof (induction xs arbitrary: k n)
  case Nil
  then show ?case by simp
next
  case (Cons x xs)
  show ?case
  proof (cases "spec_rle xs")
    case Nil
    then show ?thesis using Cons.prems by simp
  next
    case (Cons p rest)
    obtain y m where p: "p = (y, m)" by (cases p)
    have hd: "m \<le> length (filter (\<lambda>z. z = y) xs)"
      using Cons.IH [of y m] Cons p by simp
    have tl: "\<And>k n. (k, n) \<in> set rest \<Longrightarrow> n \<le> length (filter (\<lambda>z. z = k) xs)"
      using Cons.IH Cons by simp
    show ?thesis
    proof (cases "x = y")
      case True
      then have "(k, n) = (y, Suc m) \<or> (k, n) \<in> set rest"
        using Cons.prems Cons p by simp
      then show ?thesis
      proof
        assume "(k, n) = (y, Suc m)"
        then show ?thesis using hd True by simp
      next
        assume "(k, n) \<in> set rest"
        then have "n \<le> length (filter (\<lambda>z. z = k) xs)" by (rule tl)
        then show ?thesis by simp
      qed
    next
      case False
      then have "(k, n) = (x, 1) \<or> (k, n) = (y, m) \<or> (k, n) \<in> set rest"
        using Cons.prems Cons p by auto
      then show ?thesis
      proof (elim disjE)
        assume "(k, n) = (x, 1)"
        then show ?thesis by simp
      next
        assume "(k, n) = (y, m)"
        then show ?thesis using hd by (simp add: le_SucI)
      next
        assume "(k, n) \<in> set rest"
        then have "n \<le> length (filter (\<lambda>z. z = k) xs)" by (rule tl)
        then show ?thesis by simp
      qed
    qed
  qed
qed

lemma long_run_count:
  assumes "spec_has_long_run l xs"
  shows "6 \<le> length (filter (\<lambda>y. y = l) xs)"
proof -
  obtain n where "(l, n) \<in> set (spec_rle xs)" "5 < n"
    using assms by (auto simp: spec_has_long_run_def list_ex_iff)
  then show ?thesis using rle_run_le_count [of l n xs] by simp
qed


lemma mean_Inr: "row \<noteq> [] \<Longrightarrow> mean row = Inr (sum_list row / real (length row))"
  by (simp add: mean_def)

lemma stdev_Inr:
  "2 \<le> length row \<Longrightarrow>
   stdev row = Inr (sqrt (sum_list (map (\<lambda>x. (x - sum_list row / real (length row))\<^sup>2) row)
                      / real (length row - 1)))"
  by (simp add: stdev_def Let_def)

lemma stdev_nonneg: "stdev row = Inr s \<Longrightarrow> 0 \<le> s"
proof -
  assume a: "stdev row = Inr s"
  have "0 \<le> sum_list (map (\<lambda>x. (x - sum_list row / real (length row))\<^sup>2) row)"
    by (rule sum_list_nonneg) auto
  then show ?thesis using a
    by (auto simp: stdev_def Let_def split: if_splits)
qed

lemma signal_level_spec: "signal_level m (s * 1.5) = spec_level m s"
  by (rule ext) (simp add: signal_level_def spec_level_def mult.commute)

lemma signal_level_spec': "signal_level m (s * 3 / 2) = spec_level m s"
  using signal_level_spec [of m s] by simp

lemma determine_scans_Inr_length:
  "determine_scans row = Inr flags \<Longrightarrow> 2 \<le> length row"
  by (cases "length row < 2") (auto simp: determine_scans_def stdev_def mean_def bind_err_def split: if_splits)

lemma determine_scans_eq:
  assumes "mean row = Inr m" and "stdev row = Inr s"
  shows "determine_scans row
           = Inr (spec_has_long_run 1 (map (spec_level m s) row),
                  spec_has_long_run (- 1) (map (spec_level m s) row))"
  using assms
  by (simp add: determine_scans_def Let_def signal_level_spec' grouped_signal_counts_def
      groupby_counts_rle scan_loop_flags spec_has_long_run_def)

lemma filter_length_mono:
  "(\<And>x. P x \<Longrightarrow> Q x) \<Longrightarrow> length (filter P xs) \<le> length (filter Q xs)"
  by (induction xs) auto

lemma level_hi_count:
  "length (filter (\<lambda>y. y = 1) (map (spec_level m s) row))
     = length (filter (\<lambda>v. v > m + 1.5 * s) row)"
  by (induction row) (auto simp: spec_level_def)

lemma level_lo_count:
  "length (filter (\<lambda>y. y = - 1) (map (spec_level m s) row))
     \<le> length (filter (\<lambda>v. v < m - 1.5 * s) row)"
  by (induction row) (auto simp: spec_level_def)

lemma sum_list_const:
  "\<forall>x\<in>set row. x = (c::real) \<Longrightarrow> sum_list row = real (length row) * c"
  by (induction row) (auto simp: algebra_simps)

lemma mean_const:
  assumes "\<forall>x\<in>set row. x = c" and "row \<noteq> []"
  shows "mean row = Inr c"
  using assms sum_list_const [OF assms(1)] by (simp add: mean_def)

lemma filter_nonempty_witness:
  "6 \<le> length (filter P xs) \<Longrightarrow> \<exists>x\<in>set xs. P x"
  by (cases "filter P xs") (auto simp: filter_eq_Cons_iff)

lemma determine_scans_const:
  assumes "2 \<le> length row" and "\<forall>x\<in>set row. x = c"
  shows "determine_scans row = Inr (False, False)"
proof -
  have ne: "row \<noteq> []" using assms(1) by auto
  have m: "mean row = Inr c" using assms(2) ne by (rule mean_const)
  obtain s where s: "stdev row = Inr s" using stdev_Inr [OF assms(1)] by blast
  have s0: "0 \<le> s" using s by (rule stdev_nonneg)
  have hi: "\<not> spec_has_long_run 1 (map (spec_level c s) row)"
  proof
    assume "spec_has_long_run 1 (map (spec_level c s) row)"
    then have "6 \<le> length (filter (\<lambda>v. v > c + 1.5 * s) row)"
      using long_run_count [of 1 "map (spec_level c s) row"] by (simp only: level_hi_count)
    then obtain v where "v \<in> set row" "v > c + 1.5 * s"
      using filter_nonempty_witness by blast
    then show False using assms(2) s0 by auto
  qed
  have lo: "\<not> spec_has_long_run (- 1) (map (spec_level c s) row)"
  proof
    assume "spec_has_long_run (- 1) (map (spec_level c s) row)"
    then have "6 \<le> length (filter (\<lambda>y. y = - 1) (map (spec_level c s) row))"
      by (rule long_run_count)
    also have "\<dots> \<le> length (filter (\<lambda>v. v < c - 1.5 * s) row)" by (rule level_lo_count)
    finally have "6 \<le> length (filter (\<lambda>v. v < c - 1.5 * s) row)" .
    then obtain v where "v \<in> set row" "v < c - 1.5 * s"
      using filter_nonempty_witness by blast
    then show False using assms(2) s0 by auto
  qed
  show ?thesis using determine_scans_eq [OF m s] hi lo by simp
qed

lemma py_max_Inr:
  assumes "row \<noteq> []"
  shows "py_max row = Inr (Max (set row))"
proof (cases row)
  case Nil
  then show ?thesis using assms by simp
next
  case (Cons x xs)
  have "Max (set (x # xs)) = fold max xs x" by (rule Max.set_eq_fold)
  then show ?thesis using Cons by (simp del: set_simps)
qed

lemma example_row_mean: "mean example_row = Inr 0"
  by (simp add: mean_def example_row_def sum_list_replicate)

lemma example_row_stdev: "stdev example_row = Inr 1"
  by (simp add: stdev_def example_row_def Let_def sum_list_replicate)


lemma example_row_levels:
  "map (spec_level 0 1) example_row = replicate 6 1 @ replicate 37 0 @ replicate 6 (- 1)"
  by (simp add: example_row_def spec_level_def)


lemma example_row_scans: "determine_scans example_row = Inr (True, True)"
  unfolding determine_scans_eq [OF example_row_mean example_row_stdev] example_row_levels
  by (simp add: spec_has_long_run_def numeral_eq_Suc)


lemma scan_reduced_row_fields:
  assumes ds: "determine_scans row = Inr (p, v)"
    and mx: "py_max row = Inr ymax" and m: "mean row = Inr m" and s: "stdev row = Inr s"
  shows "\<exists>d. scan_reduced_row fp row = Inr d
           \<and> reduced_row d = row
           \<and> peaks d = (if p then fst (fp row (m + 1.5 * s) 20 4 3) else [])
           \<and> peak_properties d
               = (if p then Properties (snd (fp row (m + 1.5 * s) 20 4 3)) else Empty_list)
           \<and> valleys d
               = (if v then fst (fp (map (\<lambda>y. ymax - y) row) ((ymax - m) + 1.5 * s) 20 4 3)
                  else [])
           \<and> valley_properties d
               = (if v then Properties
                    (snd (fp (map (\<lambda>y. ymax - y) row) ((ymax - m) + 1.5 * s) 20 4 3))
                  else Empty_list)
           \<and> search_calls d
               = (if p then [(row, m + 1.5 * s, 20, 4, 3)] else [])
                 @ (if v then [(map (\<lambda>y. ymax - y) row, (ymax - m) + 1.5 * s, 20, 4, 3)]
                    else [])"
  using ds mx m s
  by (simp add: scan_reduced_row_def Let_def mult.commute)

lemma scan_inputs:
  assumes "determine_scans row = Inr flags"
  shows "\<exists>m s. py_max row = Inr (Max (set row)) \<and> mean row = Inr m \<and> stdev row = Inr s"
proof -
  have l: "2 \<le> length row" using assms by (rule determine_scans_Inr_length)
  then have ne: "row \<noteq> []" by auto
  show ?thesis using py_max_Inr [OF ne] mean_Inr [OF ne] stdev_Inr [OF l] by blast
qed


lemma bp_loop_map:
  "bp_loop locs bp
     = bp @ map (\<lambda>i. (int i + int (cfg_smooth_size div 2)) * int cfg_reduce_size - 1500) locs"
  by (induction locs arbitrary: bp) simp_all

lemma bp_loop_nth:
  "k < length locs \<Longrightarrow> bp_loop locs [] ! k = (int (locs ! k) + 5) * 10 - 1500"
  by (simp add: bp_loop_map cfg_smooth_size_def cfg_reduce_size_def)

lemma bp_loop_length: "length (bp_loop locs []) = length locs"
  by (simp add: bp_loop_map)

lemma peak_fields_four:
  "peak_fields_loop [0 ..< 4] bp line
     = line @ '','' @ (if 0 < length bp then str_int (bp ! 0) else [])
            @ '','' @ (if 1 < length bp then str_int (bp ! 1) else [])
            @ '','' @ (if 2 < length bp then str_int (bp ! 2) else [])
            @ '','' @ (if 3 < length bp then str_int (bp ! 3) else [])"
proof -
  have "[0 ..< 4] = [0, 1, 2, 3::nat]" by (simp add: upt_rec)
  then show ?thesis by simp
qed

lemma position_field_bp:
  "(if k < length (bp_loop locs []) then str_int (bp_loop locs [] ! k) else [])
     = spec_position_field locs k"
  by (simp add: spec_position_field_def bp_loop_length bp_loop_nth)

lemma tf_regulation_line_fields:
  "tf_regulation_line ps vs ident sra
     = str_nat (length ps) @ '','' @ str_nat (length vs) @ '','' @ ident @ '','' @ sra
       @ '','' @ category_of (length ps) (length vs)
       @ '','' @ spec_position_field ps 0 @ '','' @ spec_position_field ps 1
       @ '','' @ spec_position_field ps 2 @ '','' @ spec_position_field ps 3
       @ '','' @ spec_position_field vs 0 @ [CHR 0x0A]"
proof -
  have v: "(if 0 < length (bp_loop vs []) then x @ '','' @ str_int (bp_loop vs [] ! 0) else x @ '','')
             = x @ '','' @ spec_position_field vs 0" for x
    using position_field_bp [of 0 vs] by (simp split: if_splits)
  show ?thesis
    unfolding tf_regulation_line_def Let_def peak_fields_four position_field_bp v
    by simp
qed

lemma tf_regulation_line_spec:
  "tf_regulation_line ps vs ident sra = spec_record_line ps vs ident sra"
  by (simp add: tf_regulation_line_fields spec_record_line_def)

lemma bp_loop_sorted:
  assumes "sorted locs"
  shows "sorted (bp_loop locs [])"
proof -
  have "sorted (map (\<lambda>i. (int i + int (cfg_smooth_size div 2)) * int cfg_reduce_size - 1500) locs)"
    using assms
    by (induction locs) (auto simp: cfg_reduce_size_def)
  then show ?thesis by (simp add: bp_loop_map)
qed




lemma categorize_row_Inr:
  assumes "categorize_row fp sra ids raw_data i st = Inr st'"
  shows "\<exists>d. find_peaks_and_or_valleys fp (raw_data ! i) cfg_reduce_size cfg_smooth_size = Inr d
           \<and> i < length ids
           \<and> written st' = written st @ [tf_regulation_line (peaks d) (valleys d) (clean_id (ids ! i)) sra]"
proof (cases "find_peaks_and_or_valleys fp (raw_data ! i) cfg_reduce_size cfg_smooth_size")
  case (Inl e)
  then show ?thesis using assms by (simp add: categorize_row_def Let_def)
next
  case (Inr d)
  then show ?thesis using assms
    by (auto simp: categorize_row_def Let_def py_index_def clean_id_def split: if_splits)
qed





lemma loop_lines_any:
  "categorize_loop fp sra ids raw_data xs st = (st', r) \<Longrightarrow>
     \<exists>ls. written st' = written st @ ls \<and> length ls \<le> length xs
        \<and> (r = None \<longrightarrow> length ls = length xs)
        \<and> (\<forall>k<length ls. \<exists>d.
              find_peaks_and_or_valleys fp (raw_data ! (xs ! k)) cfg_reduce_size cfg_smooth_size = Inr d
            \<and> xs ! k < length ids
            \<and> ls ! k = tf_regulation_line (peaks d) (valleys d) (clean_id (ids ! (xs ! k))) sra)"
proof (induction xs arbitrary: st)
  case Nil
  then show ?case by simp
next
  case (Cons i xs)
  show ?case
  proof (cases "categorize_row fp sra ids raw_data i st")
    case (Inl e)
    then have "st' = st" using Cons.prems by simp
    then show ?thesis using Cons.prems Inl by auto
  next
    case (Inr st1)
    obtain d where d: "find_peaks_and_or_valleys fp (raw_data ! i) cfg_reduce_size cfg_smooth_size = Inr d"
      "i < length ids"
      "written st1 = written st @ [tf_regulation_line (peaks d) (valleys d) (clean_id (ids ! i)) sra]"
      using categorize_row_Inr [OF Inr] by blast
    have "categorize_loop fp sra ids raw_data xs st1 = (st', r)"
      using Cons.prems Inr by simp
    from Cons.IH [OF this] obtain ls where ls: "written st' = written st1 @ ls"
      "length ls \<le> length xs" "r = None \<longrightarrow> length ls = length xs"
      "\<forall>k<length ls. \<exists>d.
              find_peaks_and_or_valleys fp (raw_data ! (xs ! k)) cfg_reduce_size cfg_smooth_size = Inr d
            \<and> xs ! k < length ids
            \<and> ls ! k = tf_regulation_line (peaks d) (valleys d) (clean_id (ids ! (xs ! k))) sra"
      by blast
    let ?l0 = "tf_regulation_line (peaks d) (valleys d) (clean_id (ids ! i)) sra"
    have a: "written st' = written st @ (?l0 # ls)" using ls(1) d(3) by simp
    have b: "length (?l0 # ls) \<le> length (i # xs)" using ls(2) by simp
    have b': "r = None \<longrightarrow> length (?l0 # ls) = length (i # xs)" using ls(3) by simp
    have c: "\<forall>k<length (?l0 # ls). \<exists>d.
              find_peaks_and_or_valleys fp (raw_data ! ((i # xs) ! k)) cfg_reduce_size cfg_smooth_size = Inr d
            \<and> (i # xs) ! k < length ids
            \<and> (?l0 # ls) ! k
                = tf_regulation_line (peaks d) (valleys d) (clean_id (ids ! ((i # xs) ! k))) sra"
    proof (intro allI impI)
      fix k assume k: "k < length (?l0 # ls)"
      show "\<exists>d. find_peaks_and_or_valleys fp (raw_data ! ((i # xs) ! k)) cfg_reduce_size cfg_smooth_size = Inr d
            \<and> (i # xs) ! k < length ids
            \<and> (?l0 # ls) ! k
                = tf_regulation_line (peaks d) (valleys d) (clean_id (ids ! ((i # xs) ! k))) sra"
      proof (cases k)
        case 0
        then show ?thesis using d by auto
      next
        case (Suc j)
        then have "j < length ls" using k by simp
        then show ?thesis using ls(4) Suc by simp
      qed
    qed
    show ?thesis using a b b' c by blast
  qed
qed

lemma zeros_reduce:
  "reduce_data_for_peak_detection (replicate 120 0) cfg_reduce_size cfg_smooth_size = Inr [0, 0]"
  by (simp add: reduce_data_for_peak_detection_def bucket_reduction_def py_range_def
      bucket_smooth_def cfg_reduce_size_def cfg_smooth_size_def slice_def upt_rec mean_def
      sum_list_replicate)


lemma zeros_scan:
  "scan_reduced_row example_search [0, 0]
     = Inr \<lparr>reduced_row = [0, 0], peaks = [], valleys = [],
            peak_properties = Empty_list, valley_properties = Empty_list, search_calls = []\<rparr>"
proof -
  have c: "determine_scans [0, 0] = Inr (False, False)"
    using determine_scans_const [of "[0, 0]" 0] by simp
  have "py_max [0, 0] = Inr 0" by simp
  moreover have "mean [0, 0] = Inr 0" by (simp add: mean_def)
  moreover obtain s where "stdev [0, 0] = Inr s" by (simp add: stdev_def)
  ultimately show ?thesis using c by (simp add: scan_reduced_row_def Let_def)
qed

lemma clean_example: "clean_id ''HO_ABC_HUMAN.H10MO'' = ''ABC''"
  by (simp add: clean_id_def str_replace.simps)

lemma zeros_line:
  "tf_regulation_line [] [] ''ABC'' ''SRR1'' = ''0,0,ABC,SRR1,inactive,,,,,'' @ [CHR 0x0A]"
  by (simp add: tf_regulation_line_def category_of_def str_nat.simps digit_char_def upt_rec)

lemma example_run:
  "categorize_msd_file_into_tf_regulation example_search ''SRR1'' [''HO_ABC_HUMAN.H10MO'']
       [replicate 120 0]
     = (\<lparr>rows_by_counts = [((0, 0), [0])],
          written = [''0,0,ABC,SRR1,inactive,,,,,'' @ [CHR 0x0A]]\<rparr>, None)"
  using clean_example zeros_line
  by (simp add: categorize_msd_file_into_tf_regulation_def categorize_row_def
      find_peaks_and_or_valleys_def zeros_reduce zeros_scan py_index_def note_row_def clean_id_def)


subsection \<open>Facts about the double-precision arithmetic\<close>

lemma round_even_near:
  assumes "\<bar>x - of_int k\<bar> < 1 / 2"
  shows "round_even x = k"
proof -
  have b: "of_int k - 1 / 2 < x" "x < of_int k + 1 / 2"
    using assms by linarith+
  have "of_int (k - 1) \<le> x" using b(1) by simp
  then have "k - 1 \<le> \<lfloor>x\<rfloor>" by (simp only: le_floor_iff)
  moreover have "x < of_int (k + 1)" using b(2) by simp
  then have "\<lfloor>x\<rfloor> < k + 1" by (simp only: floor_less_iff)
  ultimately have "\<lfloor>x\<rfloor> = k \<or> \<lfloor>x\<rfloor> = k - 1" by linarith
  then show ?thesis
  proof
    assume f: "\<lfloor>x\<rfloor> = k"
    then have "x - of_int k < 1 / 2" using b by linarith
    then show ?thesis using f by (simp add: round_even_def Let_def)
  next
    assume f: "\<lfloor>x\<rfloor> = k - 1"
    then have "x - of_int (k - 1) > 1 / 2" using b by simp
    then show ?thesis using f by (simp add: round_even_def Let_def)
  qed
qed

lemma round_even_int: "round_even (of_int k) = k"
  by (rule round_even_near) simp

lemma round_even_tie:
  assumes "x = of_int k + 1 / 2"
  shows "round_even x = (if even k then k else k + 1)"
proof -
  have f: "\<lfloor>x\<rfloor> = k" unfolding assms by linarith
  show ?thesis using f assms by (simp add: round_even_def Let_def)
qed

lemma dbl_scaled:
  assumes "2 ^ 52 \<le> x * 2 ^ q" and "x * 2 ^ q < 2 ^ 53"
  shows "dbl x = of_int (round_even (x * 2 ^ q)) / 2 ^ q"
proof -
  have pos: "0 < x"
  proof (rule ccontr)
    assume "\<not> 0 < x"
    then have "x * 2 ^ q \<le> 0" by (simp add: mult_nonpos_nonneg)
    then show False using assms(1) by (smt (verit) zero_less_power)
  qed
  let ?e = "52 - int q"
  have p1: "(2::real) powi ?e = 2 ^ 52 / 2 ^ q"
    by (simp add: power_int_diff)
  have p2: "(2::real) powi (?e + 1) = 2 ^ 53 / 2 ^ q"
  proof -
    have "?e + 1 = 53 - int q" by simp
    then show ?thesis by (simp add: power_int_diff)
  qed
  have pw1: "(2::real) powr real_of_int ?e = 2 powi ?e"
    by (rule powr_real_of_int') simp_all
  have pw2: "(2::real) powr real_of_int (?e + 1) = 2 powi (?e + 1)"
    by (rule powr_real_of_int') simp_all
  have l1: "(2::real) ^ 52 / 2 ^ q \<le> x"
    using assms(1) by (simp only: pos_divide_le_eq zero_less_power zero_less_numeral)
  have h1: "x < (2::real) ^ 53 / 2 ^ q"
    using assms(2) by (simp only: pos_less_divide_eq zero_less_power zero_less_numeral)
  have lo: "(2::real) powr real_of_int ?e \<le> x"
    unfolding pw1 p1 by (rule l1)
  have hi: "x < (2::real) powr real_of_int (?e + 1)"
    unfolding pw2 p2 by (rule h1)
  have "\<lfloor>log 2 x\<rfloor> = ?e"
  proof -
    have "(1::real) < 2" by simp
    from floor_log_eq_powr_iff [OF pos this, of ?e] show ?thesis using lo hi by blast
  qed
  then have e: "\<lfloor>log 2 \<bar>x\<bar>\<rfloor> = ?e" using pos by simp
  have p3: "(2::real) powi (?e - 52) = 1 / 2 ^ q"
  proof -
    have "?e - 52 = - int q" by simp
    then show ?thesis by (simp add: power_int_minus_divide)
  qed
  show ?thesis using pos unfolding dbl_def e Let_def p3 by simp
qed


lemma dbl_zero: "dbl 0 = 0"
  by (simp add: dbl_def)

lemma dbl_near:
  assumes "2 ^ 52 \<le> x * 2 ^ q" and "x * 2 ^ q < 2 ^ 53" and "\<bar>x * 2 ^ q - of_int k\<bar> < 1 / 2"
  shows "dbl x = of_int k / 2 ^ q"
  using dbl_scaled [OF assms(1,2)] round_even_near [OF assms(3)] by simp

lemma dbl_tie_odd:
  assumes "2 ^ 52 \<le> x * 2 ^ q" and "x * 2 ^ q < 2 ^ 53" and "x * 2 ^ q = of_int k + 1 / 2"
    and "odd k"
  shows "dbl x = of_int (k + 1) / 2 ^ q"
  using dbl_scaled [OF assms(1,2)] round_even_tie [OF assms(3)] assms(4) by simp

lemma tie_mean: "mean_dbl tie_row = Inr (7926335344172073 / 2 ^ 56)"
proof -
  have s: "sum_list tie_row / real (length tie_row) = 435948443929464009 / 3963167672086036480"
    by (simp add: tie_row_def sum_list_replicate)
  have "dbl (435948443929464009 / 3963167672086036480) = of_int 7926335344172073 / 2 ^ 56"
    by (rule dbl_near) simp_all
  then show ?thesis unfolding mean_dbl_def s by (simp add: tie_row_def)
qed

lemma tie_var:
  "sum_list (map (\<lambda>x. (x - sum_list tie_row / real (length tie_row))\<^sup>2) tie_row)
     / real (length tie_row - 1)
   = 4112299111959582860371462109651829 / 1142305308877662078276709192428421120"
proof -
  have s: "sum_list tie_row / real (length tie_row) = 435948443929464009 / 3963167672086036480"
    by (simp add: tie_row_def sum_list_replicate)
  show ?thesis unfolding s
    by (simp add: tie_row_def sum_list_replicate power2_eq_square)
qed

lemma tie_stdev: "stdev_dbl tie_row = Inr (1080863910568919 / 2 ^ 54)"
proof -
  let ?v = "4112299111959582860371462109651829 / 1142305308877662078276709192428421120 :: real"
  let ?k = "8646911284551352 :: int"
  have v0: "0 \<le> ?v" by simp
  have lo: "(of_int ?k - 1 / 2) / 2 ^ 57 < sqrt ?v"
    by (rule real_less_rsqrt) (simp add: power2_eq_square)
  have hi: "sqrt ?v < (of_int ?k + 1 / 2) / 2 ^ 57"
    by (rule real_less_lsqrt) (simp_all add: power2_eq_square)
  have lo': "of_int ?k - 1 / 2 < sqrt ?v * 2 ^ 57"
    using lo by (simp only: pos_divide_less_eq zero_less_power zero_less_numeral)
  have hi': "sqrt ?v * 2 ^ 57 < of_int ?k + 1 / 2"
    using hi by (simp only: pos_less_divide_eq zero_less_power zero_less_numeral)
  have near: "\<bar>sqrt ?v * 2 ^ 57 - of_int ?k\<bar> < 1 / 2" using lo' hi' by linarith
  have b1: "2 ^ 52 \<le> sqrt ?v * 2 ^ 57" using lo' by simp
  have b2: "sqrt ?v * 2 ^ 57 < 2 ^ 53" using hi' by simp
  have "dbl (sqrt ?v) = of_int ?k / 2 ^ 57" using b1 b2 near by (rule dbl_near)
  then have d: "dbl (sqrt ?v) = 1080863910568919 / 2 ^ 54" by simp
  have l: "\<not> length tie_row < 2" by (simp add: tie_row_def)
  show ?thesis unfolding stdev_dbl_def Let_def tie_var using l d by simp
qed

lemma tie_stdev_15: "dbl (1080863910568919 / 2 ^ 54 * 1.5) = 6485183463413514 / 2 ^ 56"
proof -
  have "dbl (1080863910568919 / 2 ^ 54 * 1.5) = of_int 6485183463413514 / 2 ^ 56"
    by (rule dbl_near) simp_all
  then show ?thesis by simp
qed

lemma tie_upper:
  "dbl (7926335344172073 / 2 ^ 56 + 6485183463413514 / 2 ^ 56) = 7205759403792794 / 2 ^ 55"
proof -
  have "dbl (7926335344172073 / 2 ^ 56 + 6485183463413514 / 2 ^ 56)
          = of_int (7205759403792793 + 1) / 2 ^ 55"
    by (rule dbl_tie_odd) simp_all
  then show ?thesis by simp
qed

lemma tie_lower:
  "dbl (7926335344172073 / 2 ^ 56 - 6485183463413514 / 2 ^ 56) = 5764607523034236 / 2 ^ 58"
proof -
  have "dbl (7926335344172073 / 2 ^ 56 - 6485183463413514 / 2 ^ 56)
          = of_int 5764607523034236 / 2 ^ 58"
    by (rule dbl_near) simp_all
  then show ?thesis by simp
qed

lemma tie_inv_low:
  "dbl (5224175567749775 / 2 ^ 54 - 5764607523034235 / 2 ^ 58) = 4863887597560135 / 2 ^ 54"
proof -
  have "dbl (5224175567749775 / 2 ^ 54 - 5764607523034235 / 2 ^ 58)
          = of_int 4863887597560135 / 2 ^ 54"
    by (rule dbl_near) simp_all
  then show ?thesis by simp
qed

lemma tie_inv_mid:
  "dbl (5224175567749775 / 2 ^ 54 - 7926335344172073 / 2 ^ 56) = 6485183463413514 / 2 ^ 55"
proof -
  have "dbl (5224175567749775 / 2 ^ 54 - 7926335344172073 / 2 ^ 56)
          = of_int (6485183463413513 + 1) / 2 ^ 55"
    by (rule dbl_tie_odd) simp_all
  then show ?thesis by simp
qed

lemma tie_height:
  "dbl (6485183463413514 / 2 ^ 55 + 6485183463413514 / 2 ^ 56) = 4863887597560136 / 2 ^ 54"
proof -
  have "dbl (6485183463413514 / 2 ^ 55 + 6485183463413514 / 2 ^ 56)
          = of_int (4863887597560135 + 1) / 2 ^ 54"
    by (rule dbl_tie_odd) simp_all
  then show ?thesis by simp
qed

lemma tie_levels:
  "map (signal_level_dbl (7926335344172073 / 2 ^ 56) (6485183463413514 / 2 ^ 56)) tie_row
     = replicate 8 (- 1) @ replicate 4 1 @ replicate 43 0"
  by (simp only: tie_row_def map_append map_replicate signal_level_dbl_def tie_upper tie_lower)
    simp

lemma tie_counts:
  "grouped_signal_counts (replicate 8 (- 1) @ replicate 4 1 @ replicate 43 0)
     = [(- 1, 8), (1, 4), (0, 43)]"
  by (simp add: grouped_signal_counts_def numeral_eq_Suc)

lemma tie_scans: "determine_scans_dbl tie_row = Inr (False, True)"
  by (simp only: determine_scans_dbl_def tie_mean tie_stdev bind_err_simps Let_def
      tie_stdev_15 tie_levels tie_counts)
    (simp add: scan_threshold_def)

lemma tie_max: "py_max tie_row = Inr (5224175567749775 / 2 ^ 54)"
proof -
  have ne: "tie_row \<noteq> []" by (simp add: tie_row_def)
  have "Max (set tie_row) = 5224175567749775 / 2 ^ 54"
    by (simp add: tie_row_def)
  then show ?thesis using py_max_Inr [OF ne] by (simp only:)
qed

lemma tie_inverse:
  "map (\<lambda>v. dbl (5224175567749775 / 2 ^ 54 - v)) tie_row
     = replicate 8 (4863887597560135 / 2 ^ 54) @ replicate 4 0
       @ replicate 43 (6485183463413514 / 2 ^ 55)"
proof -
  have z: "dbl (5224175567749775 / 2 ^ 54 - 5224175567749775 / 2 ^ 54) = 0"
    by (simp add: dbl_zero)
  show ?thesis
    by (simp only: tie_row_def map_append map_replicate tie_inv_low tie_inv_mid z)
qed

lemma tie_below:
  "length (filter (\<lambda>x. x < dbl (7926335344172073 / 2 ^ 56 - 6485183463413514 / 2 ^ 56)) tie_row)
     = 8"
  by (simp only: tie_lower) (simp add: tie_row_def)

lemma tie_found:
  "example_search
     (replicate 8 (4863887597560135 / 2 ^ 54) @ replicate 4 0
        @ replicate 43 (6485183463413514 / 2 ^ 55))
     (4863887597560136 / 2 ^ 54) 20 4 3 = ([], ())"
proof -
  let ?ys = "replicate 8 (4863887597560135 / 2 ^ 54) @ replicate 4 (0::real)
         @ replicate 43 (6485183463413514 / 2 ^ 55)"
  have "\<forall>y\<in>set ?ys. \<not> y > 4863887597560136 / 2 ^ 54" by simp
  then have "\<forall>i\<in>set [0 ..< length ?ys]. \<not> ?ys ! i > 4863887597560136 / 2 ^ 54"
    by (metis atLeastLessThan_iff nth_mem set_upt)
  then have "filter (\<lambda>i. ?ys ! i > 4863887597560136 / 2 ^ 54) [0 ..< length ?ys] = []"
    by (simp only: filter_empty_conv) 
  then show ?thesis by (simp only: example_search_def)
qed

lemma tie_run:
  "scan_reduced_row_dbl example_search tie_row
     = Inr \<lparr>reduced_row = tie_row, peaks = [], valleys = [],
            peak_properties = Empty_list, valley_properties = Properties (),
            search_calls =
              [(replicate 8 (4863887597560135 / 2 ^ 54) @ replicate 4 0
                  @ replicate 43 (6485183463413514 / 2 ^ 55),
                4863887597560136 / 2 ^ 54, 20, 4, 3)]\<rparr>"
  by (simp only: scan_reduced_row_dbl_def tie_scans tie_max tie_mean tie_stdev bind_err_simps
      Let_def tie_stdev_15 tie_inverse tie_inv_mid tie_height tie_found prod.case if_True if_False)
    simp


lemma dbl_level_hi_count:
  "length (filter (\<lambda>y. y = 1) (map (signal_level_dbl m t) row))
     = length (filter (\<lambda>x. x > dbl (m + t)) row)"
  by (induction row) (auto simp: signal_level_dbl_def)

lemma dbl_level_lo_count:
  "length (filter (\<lambda>y. y = - 1) (map (signal_level_dbl m t) row))
     \<le> length (filter (\<lambda>x. x < dbl (m - t)) row)"
  by (induction row) (auto simp: signal_level_dbl_def)

lemma determine_scans_dbl_eq:
  assumes "mean_dbl row = Inr m" and "stdev_dbl row = Inr s"
  shows "determine_scans_dbl row
           = Inr (spec_has_long_run 1 (map (signal_level_dbl m (dbl (s * 1.5))) row),
                  spec_has_long_run (- 1) (map (signal_level_dbl m (dbl (s * 1.5))) row))"
  using assms
  by (simp only: determine_scans_dbl_def bind_err_simps Let_def grouped_signal_counts_def
      groupby_counts_rle scan_loop_flags spec_has_long_run_def) simp

lemma scan_inputs_dbl:
  assumes "determine_scans_dbl row = Inr flags"
  shows "\<exists>m s. py_max row = Inr (Max (set row)) \<and> mean_dbl row = Inr m \<and> stdev_dbl row = Inr s"
proof -
  have l: "2 \<le> length row"
    using assms
    by (cases "length row < 2")
      (auto simp: determine_scans_dbl_def stdev_dbl_def mean_dbl_def bind_err_def split: if_splits)
  then have ne: "row \<noteq> []" by auto
  have "\<exists>m. mean_dbl row = Inr m" using ne by (simp add: mean_dbl_def)
  moreover have "\<exists>s. stdev_dbl row = Inr s" using l by (simp add: stdev_dbl_def Let_def)
  ultimately show ?thesis using py_max_Inr [OF ne] by blast
qed

lemma scan_reduced_row_dbl_fields:
  assumes ds: "determine_scans_dbl row = Inr (p, v)"
    and mx: "py_max row = Inr ymax" and m: "mean_dbl row = Inr m" and s: "stdev_dbl row = Inr s"
  shows "\<exists>d. scan_reduced_row_dbl fp row = Inr d
           \<and> peaks d = (if p then fst (fp row (dbl (m + dbl (s * 1.5))) 20 4 3) else [])
           \<and> valleys d
               = (if v then fst (fp (map (\<lambda>y. dbl (ymax - y)) row)
                                  (dbl (dbl (ymax - m) + dbl (s * 1.5))) 20 4 3)
                  else [])
           \<and> search_calls d
               = (if p then [(row, dbl (m + dbl (s * 1.5)), 20, 4, 3)] else [])
                 @ (if v then [(map (\<lambda>y. dbl (ymax - y)) row,
                                dbl (dbl (ymax - m) + dbl (s * 1.5)), 20, 4, 3)]
                    else [])"
  by (simp only: scan_reduced_row_dbl_def ds mx m s bind_err_simps Let_def prod.case) simp

lemma dbl_exact:
  assumes "2 ^ 52 \<le> x * 2 ^ q" and "x * 2 ^ q < 2 ^ 53" and "x * 2 ^ q = of_int k"
  shows "dbl x = x"
proof -
  have "dbl x = of_int k / 2 ^ q"
    using assms(1,2) by (rule dbl_near) (simp add: assms(3))
  also have "\<dots> = x" using assms(3) [symmetric] by simp
  finally show ?thesis .
qed

lemma shifted_mean: "mean_dbl shifted_row = Inr 4"
proof -
  have s: "sum_list shifted_row / real (length shifted_row) = 4"
    by (simp add: shifted_row_def sum_list_replicate)
  have "dbl 4 = 4" by (rule dbl_exact [where q = 50 and k = "2 ^ 52"]) simp_all
  then show ?thesis unfolding mean_dbl_def s by (simp add: shifted_row_def)
qed

lemma shifted_stdev: "stdev_dbl shifted_row = Inr 1"
proof -
  have v: "sum_list (map (\<lambda>x. (x - sum_list shifted_row / real (length shifted_row))\<^sup>2) shifted_row)
             / real (length shifted_row - 1) = 1"
    by (simp add: shifted_row_def sum_list_replicate)
  have "dbl 1 = 1" by (rule dbl_exact [where q = 52 and k = "2 ^ 52"]) simp_all
  then have d: "dbl (sqrt 1) = 1" by simp
  have l: "\<not> length shifted_row < 2" by (simp add: shifted_row_def)
  show ?thesis unfolding stdev_dbl_def Let_def v using l d by simp
qed

lemma shifted_stdev_15: "dbl (1 * 1.5) = 3 / 2"
proof -
  have "dbl (3 / 2) = 3 / 2" by (rule dbl_exact [where q = 52 and k = "3 * 2 ^ 51"]) simp_all
  then show ?thesis by simp
qed

lemma shifted_upper: "dbl (4 + 3 / 2) = 11 / 2"
proof -
  have "dbl (11 / 2) = 11 / 2" by (rule dbl_exact [where q = 50 and k = "11 * 2 ^ 49"]) simp_all
  then show ?thesis by simp
qed

lemma shifted_lower: "dbl (4 - 3 / 2) = 5 / 2"
proof -
  have "dbl (5 / 2) = 5 / 2" by (rule dbl_exact [where q = 51 and k = "5 * 2 ^ 50"]) simp_all
  then show ?thesis by simp
qed

lemma shifted_levels:
  "map (signal_level_dbl 4 (3 / 2)) shifted_row = replicate 6 1 @ replicate 37 0 @ replicate 6 (- 1)"
  by (simp only: shifted_row_def map_append map_replicate signal_level_dbl_def shifted_upper
      shifted_lower) simp

lemma shifted_scans: "determine_scans_dbl shifted_row = Inr (True, True)"
  unfolding determine_scans_dbl_eq [OF shifted_mean shifted_stdev] shifted_stdev_15 shifted_levels
  by (simp add: spec_has_long_run_def numeral_eq_Suc)


subsection \<open>The reducer against its reference definition\<close>

text \<open>
  Claim C6. For positive sizes the reduce step equals the reference definition:
  the row is cut into consecutive chunks of \<open>reduce_size\<close> elements (the last possibly
  shorter), every chunk is replaced by its sum, and every window of width \<open>smooth_size\<close>
  starting at an index in \<open>[0, len(B) - smooth_size)\<close> is replaced by its arithmetic mean.
  In particular no exception is raised.
\<close>

theorem reduce_matches_reference:
  assumes "0 < rs" and "0 < ss"
  shows "reduce_data_for_peak_detection raw rs ss = Inr (spec_reduce raw rs ss)"
  using assms by (rule reduce_eq_spec)

theorem reduce_matches_reference_witness:
  "(0::nat) < 2 \<and> (0::nat) < 2
   \<and> reduce_data_for_peak_detection [1, 2, 3, 4, 5, 6, 7] 2 2
       = Inr (spec_reduce [1, 2, 3, 4, 5, 6, 7] 2 2)
   \<and> spec_reduce [1, 2, 3, 4, 5, 6, 7] 2 2 = [5, 9]"
proof -
  have v: "spec_reduce [1, 2, 3, 4, 5, 6, 7] 2 2 = [5, 9]"
    by (simp add: spec_reduce_def spec_bucketed_def spec_chunks.simps upt_rec)
  show ?thesis
    using reduce_matches_reference [of 2 2 "[1, 2, 3, 4, 5, 6, 7]"] v by simp
qed

subsection \<open>The length of the reduced row\<close>

text \<open>
  Claim C2, as stated: for a raw row longer than \<open>reduce_size + smooth_size\<close> the
  reduced row has length \<open>floor(len / reduce_size) - smooth_size\<close>, up to 1. A row of
  25 elements with both sizes 10 is longer than 20; it has 3 buckets, no window, and
  the reduced row is empty, while the formula gives \<open>2 - 10 = -8\<close>.
\<close>

theorem reduce_length_counterexample:
  "length (replicate 25 (1::real)) > 10 + 10
   \<and> reduce_data_for_peak_detection (replicate 25 1) 10 10 = Inr []
   \<and> \<not> \<bar>int (length ([]::real list)) - (int (length (replicate 25 (1::real)) div 10) - int 10)\<bar> \<le> 1"
  by (simp add: reduce_data_for_peak_detection_def bucket_reduction_def py_range_def
      bucket_smooth_def)

text \<open>
  Claim C2, amended. For positive sizes the reduce step returns a row; with \<open>chunks\<close>
  the chunks of the first loop, whose number is \<open>floor(len / reduce_size)\<close> when
  \<open>reduce_size\<close> divides the length and one more when the final chunk is partial, the
  length of the result is the number of chunks minus \<open>smooth_size\<close>, and 0 when that
  difference is negative; whenever the number of buckets is at most \<open>smooth_size\<close> the
  result is empty. The result is a function of the three arguments.
\<close>

theorem reduce_length_amended:
  assumes "0 < rs" and "0 < ss"
  shows "\<exists>out chunks.
           reduce_data_for_peak_detection raw rs ss = Inr out
         \<and> bucket_reduction raw rs = Inr chunks
         \<and> length chunks = (if rs dvd length raw then length raw div rs else length raw div rs + 1)
         \<and> int (length out) = max 0 (int (length chunks) - int ss)
         \<and> (length chunks \<le> ss \<longrightarrow> out = [])"
proof -
  obtain out where out: "reduce_data_for_peak_detection raw rs ss = Inr out"
    and len: "length out = (length raw + rs - 1) div rs - ss"
    using reduce_length [OF assms, of raw] by blast
  have ch: "bucket_reduction raw rs = Inr (spec_chunks rs raw)"
    using assms(1) by (rule bucket_reduction_chunks)
  have n: "length (spec_chunks rs raw) = (length raw + rs - 1) div rs"
    using assms(1) by (rule spec_chunks_length)
  have c: "length (spec_chunks rs raw)
             = (if rs dvd length raw then length raw div rs else length raw div rs + 1)"
    unfolding n using assms(1) by (rule ceil_div_cases)
  have l: "int (length out) = max 0 (int (length (spec_chunks rs raw)) - int ss)"
    unfolding len n by simp
  have e: "length (spec_chunks rs raw) \<le> ss \<longrightarrow> out = []"
  proof
    assume "length (spec_chunks rs raw) \<le> ss"
    then have "length out = 0" unfolding len n by simp
    then show "out = []" by simp
  qed
  show ?thesis using out ch c l e by blast
qed

theorem reduce_length_amended_witness:
  "(0::nat) < 2 \<and> (0::nat) < 2
   \<and> (\<exists>out chunks.
           reduce_data_for_peak_detection [1, 2, 3, 4, 5, 6, 7] 2 2 = Inr out
         \<and> bucket_reduction [1, 2, 3, 4, 5, 6, 7 :: real] 2 = Inr chunks
         \<and> length chunks = 4
         \<and> int (length out) = 2
         \<and> (length chunks \<le> 2 \<longrightarrow> out = []))"
proof -
  obtain out chunks where
    "reduce_data_for_peak_detection [1, 2, 3, 4, 5, 6, 7] 2 2 = Inr out"
    "bucket_reduction [1, 2, 3, 4, 5, 6, 7 :: real] 2 = Inr chunks"
    "length chunks = 4" "int (length out) = max 0 (int (length chunks) - int 2)"
    "length chunks \<le> 2 \<longrightarrow> out = []"
    using reduce_length_amended [of 2 2 "[1, 2, 3, 4, 5, 6, 7]"] by auto
  then show ?thesis by auto
qed

subsection \<open>The scan decider\<close>

text \<open>
  Claim C4. For every reduced row with at least 2 elements the scan decider returns
  without an exception, and \<open>scan_peaks\<close> is true iff the run-length encoding of the
  levels (+1 above mean + 1.5 stdev, -1 below mean - 1.5 stdev, else 0) has a run of
  level +1 longer than 5; \<open>scan_valleys\<close> likewise for level -1. A constant row of at
  least 2 elements gives (false, false).
\<close>

theorem scan_decider_runs:
  assumes "2 \<le> length row"
  shows "(\<exists>m s. mean row = Inr m \<and> stdev row = Inr s
            \<and> determine_scans row
                = Inr (spec_has_long_run 1 (map (spec_level m s) row),
                       spec_has_long_run (- 1) (map (spec_level m s) row)))
         \<and> determine_scans (replicate (n + 2) c) = Inr (False, False)"
proof -
  have ne: "row \<noteq> []" using assms by auto
  have a: "\<exists>m s. mean row = Inr m \<and> stdev row = Inr s
            \<and> determine_scans row
                = Inr (spec_has_long_run 1 (map (spec_level m s) row),
                       spec_has_long_run (- 1) (map (spec_level m s) row))"
    using determine_scans_eq [OF mean_Inr [OF ne] stdev_Inr [OF assms]]
      mean_Inr [OF ne] stdev_Inr [OF assms] by blast
  have b: "determine_scans (replicate (n + 2) c) = Inr (False, False)"
    by (rule determine_scans_const [where c = c]) simp_all
  show ?thesis using a b by blast
qed

theorem scan_decider_runs_witness:
  "2 \<le> length example_row
   \<and> (\<exists>m s. mean example_row = Inr m \<and> stdev example_row = Inr s
            \<and> determine_scans example_row
                = Inr (spec_has_long_run 1 (map (spec_level m s) example_row),
                       spec_has_long_run (- 1) (map (spec_level m s) example_row)))
   \<and> determine_scans (replicate (0 + 2) 7) = Inr (False, False)
   \<and> determine_scans example_row = Inr (True, True)"
proof -
  have l: "2 \<le> length example_row" by (simp add: example_row_def)
  show ?thesis using scan_decider_runs [OF l, of 0 7] l example_row_scans by simp
qed

subsection \<open>The detector\<close>

text \<open>
  Claim C5. Whenever the valley scan runs, the valley indices (and properties) are
  what the same search, with distance 20, prominence 4 and width 3, returns on the
  inverted signal \<open>y_max - y\<close> with the height \<open>(y_max - mean) + 1.5 stdev\<close>, where
  \<open>y_max\<close> is the maximum of the reduced row.
\<close>

theorem valleys_are_peaks_of_inversion:
  assumes "determine_scans row = Inr (p, True)"
  shows "\<exists>ymax m s d.
           py_max row = Inr ymax \<and> ymax = Max (set row)
         \<and> mean row = Inr m \<and> stdev row = Inr s
         \<and> scan_reduced_row fp row = Inr d
         \<and> valleys d = fst (fp (map (\<lambda>y. ymax - y) row) ((ymax - m) + 1.5 * s) 20 4 3)
         \<and> valley_properties d
             = Properties (snd (fp (map (\<lambda>y. ymax - y) row) ((ymax - m) + 1.5 * s) 20 4 3))"
proof -
  obtain m s where i: "py_max row = Inr (Max (set row))" "mean row = Inr m" "stdev row = Inr s"
    using scan_inputs [OF assms] by blast
  obtain d where "scan_reduced_row fp row = Inr d"
    "valleys d = fst (fp (map (\<lambda>y. Max (set row) - y) row) ((Max (set row) - m) + 1.5 * s) 20 4 3)"
    "valley_properties d
       = Properties (snd (fp (map (\<lambda>y. Max (set row) - y) row) ((Max (set row) - m) + 1.5 * s) 20 4 3))"
    using scan_reduced_row_fields [OF assms i, of fp] by auto
  then show ?thesis using i by blast
qed

theorem valleys_are_peaks_of_inversion_witness:
  "determine_scans example_row = Inr (True, True)
   \<and> (\<exists>ymax m s d.
           py_max example_row = Inr ymax \<and> ymax = Max (set example_row)
         \<and> mean example_row = Inr m \<and> stdev example_row = Inr s
         \<and> scan_reduced_row example_search example_row = Inr d
         \<and> valleys d
             = fst (example_search (map (\<lambda>y. ymax - y) example_row) ((ymax - m) + 1.5 * s) 20 4 3)
         \<and> valley_properties d
             = Properties (snd (example_search (map (\<lambda>y. ymax - y) example_row)
                 ((ymax - m) + 1.5 * s) 20 4 3)))"
  using valleys_are_peaks_of_inversion [OF example_row_scans, of example_search] example_row_scans
  by blast

text \<open>
  Claim C7. When the scan decider returns (false, false) on a reduced row, which it
  does only on rows of at least 2 points, detection returns empty peak and valley
  sequences with empty properties, and makes no call of the search.
\<close>

theorem no_scan_no_search:
  assumes "determine_scans row = Inr (False, False)"
  shows "scan_reduced_row fp row
           = Inr \<lparr>reduced_row = row, peaks = [], valleys = [],
                  peak_properties = Empty_list, valley_properties = Empty_list,
                  search_calls = []\<rparr>"
proof -
  obtain m s where i: "py_max row = Inr (Max (set row))" "mean row = Inr m" "stdev row = Inr s"
    using scan_inputs [OF assms] by blast
  show ?thesis using assms i by (simp add: scan_reduced_row_def Let_def)
qed

theorem no_scan_no_search_witness:
  "determine_scans [7, 7] = Inr (False, False)
   \<and> scan_reduced_row example_search [7, 7]
       = Inr \<lparr>reduced_row = [7, 7], peaks = [], valleys = [],
              peak_properties = Empty_list, valley_properties = Empty_list,
              search_calls = []\<rparr>"
proof -
  have c: "determine_scans [7, 7] = Inr (False, False)"
    using determine_scans_const [of "[7, 7]" 7] by simp
  show ?thesis using no_scan_no_search [OF c, of example_search] c by simp
qed

text \<open>
  Claim C10, as stated: when \<open>scan_valleys\<close> is true, the elements below
  mean - 1.5 stdev correspond exactly to the height of the search on the inverted signal.
  In the program's double-precision arithmetic the row
  \<^verbatim>\<open>[0.02]*8 + [0.29]*4 + [0.11]*43\<close> has mean 0.11, standard deviation 0.06 and
  1.5 stdev 0.09; its 8 elements 0.02 are below the float 0.11 - 0.09, so the valley
  scan runs, yet no element of the inverted signal, whose largest values are the float
  0.29 - 0.02, reaches the height (0.29 - 0.11) + 0.09, one unit in the last place
  above them.
\<close>

theorem threshold_correspondence_counterexample:
  "determine_scans_dbl tie_row = Inr (False, True)
   \<and> mean_dbl tie_row = Inr (7926335344172073 / 2 ^ 56)
   \<and> stdev_dbl tie_row = Inr (1080863910568919 / 2 ^ 54)
   \<and> dbl (1080863910568919 / 2 ^ 54 * 1.5) = 6485183463413514 / 2 ^ 56
   \<and> length (filter (\<lambda>x. x < dbl (7926335344172073 / 2 ^ 56 - 6485183463413514 / 2 ^ 56))
        tie_row) = 8
   \<and> scan_reduced_row_dbl example_search tie_row
       = Inr \<lparr>reduced_row = tie_row, peaks = [], valleys = [],
              peak_properties = Empty_list, valley_properties = Properties (),
              search_calls =
                [(replicate 8 (4863887597560135 / 2 ^ 54) @ replicate 4 0
                    @ replicate 43 (6485183463413514 / 2 ^ 55),
                  4863887597560136 / 2 ^ 54, 20, 4, 3)]\<rparr>
   \<and> list_all (\<lambda>z. z < 4863887597560136 / 2 ^ 54)
        (replicate 8 (4863887597560135 / 2 ^ 54) @ replicate 4 (0::real)
           @ replicate 43 (6485183463413514 / 2 ^ 55))"
proof -
  have inv: "list_all (\<lambda>z. z < 4863887597560136 / 2 ^ 54)
        (replicate 8 (4863887597560135 / 2 ^ 54) @ replicate 4 (0::real)
           @ replicate 43 (6485183463413514 / 2 ^ 55))"
    by (simp add: list_all_iff)
  show ?thesis
    using tie_scans tie_mean tie_stdev tie_stdev_15 tie_below tie_run inv by blast
qed

text \<open>
  Claim C10, amended. If \<open>scan_peaks\<close> is true, at least 6 elements of the row
  exceed mean + 1.5 stdev, and the peaks returned are those of the search on the row
  with exactly that height. If \<open>scan_valleys\<close> is true, at least 6 elements lie below
  mean - 1.5 stdev, and the valleys returned are those of the search on the inverted
  signal \<open>y_max - y\<close> with the height \<open>(y_max - mean) + 1.5 stdev\<close>, computed from the
  same mean and the same 1.5 stdev as the decider's band. No other call of the search
  is made. This holds in exact arithmetic and in double precision alike; that the
  height equals \<open>y_max - (mean - 1.5 stdev)\<close> is not part of it.
\<close>

theorem scan_flags_and_search_heights:
  "(determine_scans row = Inr (p, v) \<longrightarrow>
      (\<exists>ymax m s d.
           py_max row = Inr ymax \<and> mean row = Inr m \<and> stdev row = Inr s
         \<and> scan_reduced_row fp row = Inr d
         \<and> (p \<longrightarrow> 6 \<le> length (filter (\<lambda>x. x > m + 1.5 * s) row)
                \<and> peaks d = fst (fp row (m + 1.5 * s) 20 4 3))
         \<and> (v \<longrightarrow> 6 \<le> length (filter (\<lambda>x. x < m - 1.5 * s) row)
                \<and> valleys d
                    = fst (fp (map (\<lambda>y. ymax - y) row) ((ymax - m) + 1.5 * s) 20 4 3))
         \<and> search_calls d
             = (if p then [(row, m + 1.5 * s, 20, 4, 3)] else [])
               @ (if v then [(map (\<lambda>y. ymax - y) row, (ymax - m) + 1.5 * s, 20, 4, 3)]
                  else [])))
   \<and> (determine_scans_dbl row = Inr (p, v) \<longrightarrow>
      (\<exists>ymax m s t d.
           py_max row = Inr ymax \<and> mean_dbl row = Inr m \<and> stdev_dbl row = Inr s
         \<and> t = dbl (s * 1.5)
         \<and> scan_reduced_row_dbl fp row = Inr d
         \<and> (p \<longrightarrow> 6 \<le> length (filter (\<lambda>x. x > dbl (m + t)) row)
                \<and> peaks d = fst (fp row (dbl (m + t)) 20 4 3))
         \<and> (v \<longrightarrow> 6 \<le> length (filter (\<lambda>x. x < dbl (m - t)) row)
                \<and> valleys d
                    = fst (fp (map (\<lambda>y. dbl (ymax - y)) row) (dbl (dbl (ymax - m) + t)) 20 4 3))
         \<and> search_calls d
             = (if p then [(row, dbl (m + t), 20, 4, 3)] else [])
               @ (if v then [(map (\<lambda>y. dbl (ymax - y)) row, dbl (dbl (ymax - m) + t), 20, 4, 3)]
                  else [])))"
proof (intro conjI impI)
  assume ds: "determine_scans row = Inr (p, v)"
  obtain m s where i: "py_max row = Inr (Max (set row))" "mean row = Inr m" "stdev row = Inr s"
    using scan_inputs [OF ds] by blast
  let ?ymax = "Max (set row)"
  obtain d where d: "scan_reduced_row fp row = Inr d"
    and pk: "peaks d = (if p then fst (fp row (m + 1.5 * s) 20 4 3) else [])"
    and vl: "valleys d
               = (if v then fst (fp (map (\<lambda>y. ?ymax - y) row) ((?ymax - m) + 1.5 * s) 20 4 3)
                  else [])"
    and calls: "search_calls d
               = (if p then [(row, m + 1.5 * s, 20, 4, 3)] else [])
                 @ (if v then [(map (\<lambda>y. ?ymax - y) row, (?ymax - m) + 1.5 * s, 20, 4, 3)]
                    else [])"
    using scan_reduced_row_fields [OF ds i, of fp] by auto
  have flags: "p = spec_has_long_run 1 (map (spec_level m s) row)"
              "v = spec_has_long_run (- 1) (map (spec_level m s) row)"
    using ds determine_scans_eq [OF i(2) i(3)] by simp_all
  have hi: "p \<longrightarrow> 6 \<le> length (filter (\<lambda>x. x > m + 1.5 * s) row)"
    using flags(1) long_run_count [of 1 "map (spec_level m s) row"]
    by (simp only: level_hi_count) simp
  have lo: "v \<longrightarrow> 6 \<le> length (filter (\<lambda>x. x < m - 1.5 * s) row)"
  proof
    assume v
    then have "6 \<le> length (filter (\<lambda>y. y = - 1) (map (spec_level m s) row))"
      using flags(2) long_run_count by blast
    also have "\<dots> \<le> length (filter (\<lambda>x. x < m - 1.5 * s) row)" by (rule level_lo_count)
    finally show "6 \<le> length (filter (\<lambda>x. x < m - 1.5 * s) row)" .
  qed
  have p1: "p \<longrightarrow> peaks d = fst (fp row (m + 1.5 * s) 20 4 3)" using pk by simp
  have v1: "v \<longrightarrow> valleys d
              = fst (fp (map (\<lambda>y. ?ymax - y) row) ((?ymax - m) + 1.5 * s) 20 4 3)"
    using vl by simp
  show "\<exists>ymax m s d.
           py_max row = Inr ymax \<and> mean row = Inr m \<and> stdev row = Inr s
         \<and> scan_reduced_row fp row = Inr d
         \<and> (p \<longrightarrow> 6 \<le> length (filter (\<lambda>x. x > m + 1.5 * s) row)
                \<and> peaks d = fst (fp row (m + 1.5 * s) 20 4 3))
         \<and> (v \<longrightarrow> 6 \<le> length (filter (\<lambda>x. x < m - 1.5 * s) row)
                \<and> valleys d
                    = fst (fp (map (\<lambda>y. ymax - y) row) ((ymax - m) + 1.5 * s) 20 4 3))
         \<and> search_calls d
             = (if p then [(row, m + 1.5 * s, 20, 4, 3)] else [])
               @ (if v then [(map (\<lambda>y. ymax - y) row, (ymax - m) + 1.5 * s, 20, 4, 3)]
                  else [])"
    using i d hi lo p1 v1 calls by blast
next
  assume ds: "determine_scans_dbl row = Inr (p, v)"
  obtain m s where i: "py_max row = Inr (Max (set row))" "mean_dbl row = Inr m"
      "stdev_dbl row = Inr s"
    using scan_inputs_dbl [OF ds] by blast
  let ?ymax = "Max (set row)"
  let ?t = "dbl (s * 1.5)"
  obtain d where d: "scan_reduced_row_dbl fp row = Inr d"
    and pk: "peaks d = (if p then fst (fp row (dbl (m + ?t)) 20 4 3) else [])"
    and vl: "valleys d
               = (if v then fst (fp (map (\<lambda>y. dbl (?ymax - y)) row)
                                  (dbl (dbl (?ymax - m) + ?t)) 20 4 3)
                  else [])"
    and calls: "search_calls d
               = (if p then [(row, dbl (m + ?t), 20, 4, 3)] else [])
                 @ (if v then [(map (\<lambda>y. dbl (?ymax - y)) row,
                                dbl (dbl (?ymax - m) + ?t), 20, 4, 3)]
                    else [])"
    using scan_reduced_row_dbl_fields [OF ds i, of fp] by auto
  have flags: "p = spec_has_long_run 1 (map (signal_level_dbl m ?t) row)"
              "v = spec_has_long_run (- 1) (map (signal_level_dbl m ?t) row)"
    using ds determine_scans_dbl_eq [OF i(2) i(3)] by simp_all
  have hi: "p \<longrightarrow> 6 \<le> length (filter (\<lambda>x. x > dbl (m + ?t)) row)"
    using flags(1) long_run_count [of 1 "map (signal_level_dbl m ?t) row"]
    by (simp only: dbl_level_hi_count) simp
  have lo: "v \<longrightarrow> 6 \<le> length (filter (\<lambda>x. x < dbl (m - ?t)) row)"
  proof
    assume v
    then have "6 \<le> length (filter (\<lambda>y. y = - 1) (map (signal_level_dbl m ?t) row))"
      using flags(2) long_run_count by blast
    also have "\<dots> \<le> length (filter (\<lambda>x. x < dbl (m - ?t)) row)"
      by (rule dbl_level_lo_count)
    finally show "6 \<le> length (filter (\<lambda>x. x < dbl (m - ?t)) row)" .
  qed
  have p1: "p \<longrightarrow> peaks d = fst (fp row (dbl (m + ?t)) 20 4 3)" using pk by simp
  have v1: "v \<longrightarrow> valleys d
              = fst (fp (map (\<lambda>y. dbl (?ymax - y)) row) (dbl (dbl (?ymax - m) + ?t)) 20 4 3)"
    using vl by simp
  show "\<exists>ymax m s t d.
           py_max row = Inr ymax \<and> mean_dbl row = Inr m \<and> stdev_dbl row = Inr s
         \<and> t = dbl (s * 1.5)
         \<and> scan_reduced_row_dbl fp row = Inr d
         \<and> (p \<longrightarrow> 6 \<le> length (filter (\<lambda>x. x > dbl (m + t)) row)
                \<and> peaks d = fst (fp row (dbl (m + t)) 20 4 3))
         \<and> (v \<longrightarrow> 6 \<le> length (filter (\<lambda>x. x < dbl (m - t)) row)
                \<and> valleys d
                    = fst (fp (map (\<lambda>y. dbl (ymax - y)) row) (dbl (dbl (ymax - m) + t)) 20 4 3))
         \<and> search_calls d
             = (if p then [(row, dbl (m + t), 20, 4, 3)] else [])
               @ (if v then [(map (\<lambda>y. dbl (ymax - y)) row, dbl (dbl (ymax - m) + t), 20, 4, 3)]
                  else [])"
    using i d hi lo p1 v1 calls by blast
qed

theorem scan_flags_and_search_heights_witness:
  "determine_scans example_row = Inr (True, True)
   \<and> (\<exists>ymax m s d.
           py_max example_row = Inr ymax \<and> mean example_row = Inr m
         \<and> stdev example_row = Inr s
         \<and> scan_reduced_row example_search example_row = Inr d
         \<and> 6 \<le> length (filter (\<lambda>x. x > m + 1.5 * s) example_row)
         \<and> peaks d = fst (example_search example_row (m + 1.5 * s) 20 4 3)
         \<and> 6 \<le> length (filter (\<lambda>x. x < m - 1.5 * s) example_row)
         \<and> valleys d
             = fst (example_search (map (\<lambda>y. ymax - y) example_row)
                 ((ymax - m) + 1.5 * s) 20 4 3))
   \<and> determine_scans_dbl shifted_row = Inr (True, True)
   \<and> (\<exists>ymax m s t d.
           py_max shifted_row = Inr ymax \<and> mean_dbl shifted_row = Inr m
         \<and> stdev_dbl shifted_row = Inr s \<and> t = dbl (s * 1.5)
         \<and> scan_reduced_row_dbl example_search shifted_row = Inr d
         \<and> 6 \<le> length (filter (\<lambda>x. x > dbl (m + t)) shifted_row)
         \<and> peaks d = fst (example_search shifted_row (dbl (m + t)) 20 4 3)
         \<and> 6 \<le> length (filter (\<lambda>x. x < dbl (m - t)) shifted_row)
         \<and> valleys d
             = fst (example_search (map (\<lambda>y. dbl (ymax - y)) shifted_row)
                 (dbl (dbl (ymax - m) + t)) 20 4 3))"
proof -
  have a: "\<exists>ymax m s d.
           py_max example_row = Inr ymax \<and> mean example_row = Inr m
         \<and> stdev example_row = Inr s
         \<and> scan_reduced_row example_search example_row = Inr d
         \<and> 6 \<le> length (filter (\<lambda>x. x > m + 1.5 * s) example_row)
         \<and> peaks d = fst (example_search example_row (m + 1.5 * s) 20 4 3)
         \<and> 6 \<le> length (filter (\<lambda>x. x < m - 1.5 * s) example_row)
         \<and> valleys d
             = fst (example_search (map (\<lambda>y. ymax - y) example_row)
                 ((ymax - m) + 1.5 * s) 20 4 3)"
    using scan_flags_and_search_heights [of example_row True True example_search]
      example_row_scans
    by (simp only: simp_thms) blast
  have b: "\<exists>ymax m s t d.
           py_max shifted_row = Inr ymax \<and> mean_dbl shifted_row = Inr m
         \<and> stdev_dbl shifted_row = Inr s \<and> t = dbl (s * 1.5)
         \<and> scan_reduced_row_dbl example_search shifted_row = Inr d
         \<and> 6 \<le> length (filter (\<lambda>x. x > dbl (m + t)) shifted_row)
         \<and> peaks d = fst (example_search shifted_row (dbl (m + t)) 20 4 3)
         \<and> 6 \<le> length (filter (\<lambda>x. x < dbl (m - t)) shifted_row)
         \<and> valleys d
             = fst (example_search (map (\<lambda>y. dbl (ymax - y)) shifted_row)
                 (dbl (dbl (ymax - m) + t)) 20 4 3)"
    using scan_flags_and_search_heights [of shifted_row True True example_search]
      shifted_scans
    by (simp only: simp_thms) blast
  show ?thesis using a b example_row_scans shifted_scans by blast
qed

subsection \<open>The classifier and the output record\<close>

text \<open>
  Claim C1. The category written for a row depends on the two counts only:
  (0, 0) gives inactive, (1, 0) active, (0, 1) repressed, (2, 0) and (4, 0) offset,
  and every other pair uncategorized; it is the fifth field of the line, computed from
  the numbers of peaks and valleys found.
\<close>

theorem category_by_counts:
  "category_of 0 0 = ''inactive''
   \<and> category_of 1 0 = ''active''
   \<and> category_of 0 1 = ''repressed''
   \<and> category_of 2 0 = ''offset''
   \<and> category_of 4 0 = ''offset''
   \<and> ((pc, vc) \<notin> {(0, 0), (1, 0), (0, 1), (2, 0), (4, 0)}
        \<longrightarrow> category_of pc vc = ''uncategorized'')
   \<and> (\<exists>rest. tf_regulation_line ps vs ident sra
         = str_nat (length ps) @ '','' @ str_nat (length vs) @ '','' @ ident @ '','' @ sra
           @ '','' @ category_of (length ps) (length vs) @ rest)"
proof -
  have a: "(pc, vc) \<notin> {(0, 0), (1, 0), (0, 1), (2, 0), (4, 0)}
        \<longrightarrow> category_of pc vc = ''uncategorized''"
    by (auto simp: category_of_def)
  have b: "\<exists>rest. tf_regulation_line ps vs ident sra
         = str_nat (length ps) @ '','' @ str_nat (length vs) @ '','' @ ident @ '','' @ sra
           @ '','' @ category_of (length ps) (length vs) @ rest"
    unfolding tf_regulation_line_fields by blast
  have c: "category_of 0 0 = ''inactive''" "category_of 1 0 = ''active''"
    "category_of 0 1 = ''repressed''" "category_of 2 0 = ''offset''" "category_of 4 0 = ''offset''"
    by (simp_all add: category_of_def)
  show ?thesis using a b c by blast
qed

theorem category_by_counts_witness:
  "((3::nat), (0::nat)) \<notin> {(0, 0), (1, 0), (0, 1), (2, 0), (4, 0)}
   \<and> category_of 3 0 = ''uncategorized''
   \<and> category_of 1 1 = ''uncategorized''"
  using category_by_counts [of 3 0] category_by_counts [of 1 1] by simp

text \<open>
  Claim C3. Every reduced-row index \<open>i\<close> is converted to the position
  \<open>(i + floor(smooth_size / 2)) * reduce_size - 1500\<close>, with both sizes 10 in the
  driver; index 5 gives -1400, which is what the line of a row with the single peak 5,
  or with the single valley 5, shows.
\<close>

theorem position_mapping:
  "bp_loop locs []
     = map (\<lambda>i. (int i + int (cfg_smooth_size div 2)) * int cfg_reduce_size - 1500) locs
   \<and> cfg_reduce_size = 10 \<and> cfg_smooth_size = 10
   \<and> bp_loop [5] [] = [- 1400]
   \<and> tf_regulation_line [5] [] ident sra
       = ''1,0,'' @ ident @ '','' @ sra @ '',active,-1400,,,,'' @ [CHR 0x0A]
   \<and> tf_regulation_line [] [5] ident sra
       = ''0,1,'' @ ident @ '','' @ sra @ '',repressed,,,,,-1400'' @ [CHR 0x0A]"
proof -
  have a: "bp_loop locs []
     = map (\<lambda>i. (int i + int (cfg_smooth_size div 2)) * int cfg_reduce_size - 1500) locs"
    by (simp add: bp_loop_map)
  have b: "bp_loop [5] [] = [- 1400]"
    by (simp add: cfg_smooth_size_def cfg_reduce_size_def)
  have c: "tf_regulation_line [5] [] ident sra
       = ''1,0,'' @ ident @ '','' @ sra @ '',active,-1400,,,,'' @ [CHR 0x0A]"
    by (simp add: tf_regulation_line_def category_of_def str_int_def str_nat.simps digit_char_def
        cfg_smooth_size_def cfg_reduce_size_def upt_rec)
  have d: "tf_regulation_line [] [5] ident sra
       = ''0,1,'' @ ident @ '','' @ sra @ '',repressed,,,,,-1400'' @ [CHR 0x0A]"
    by (simp add: tf_regulation_line_def category_of_def str_int_def str_nat.simps digit_char_def
        cfg_smooth_size_def cfg_reduce_size_def upt_rec)
  show ?thesis using a b c d by (simp add: cfg_smooth_size_def cfg_reduce_size_def)
qed

text \<open>
  Claim C9. Whatever the outcome of the run, the lines written are the lines of the
  first rows, one per row and in order, and every row has been written when the run
  ends without an exception. The line of a row is the record of the specification:
  peak count, valley count, cleaned identifier, sample tag, category, four peak
  position fields holding the first four peak positions in the order found (empty
  when missing), one valley position field, and a line break. The conversion keeps
  ascending indices ascending.
\<close>

theorem one_line_per_row:
  assumes "categorize_msd_file_into_tf_regulation fp sra ids raw_data = (st, r)"
  shows "length (written st) \<le> length raw_data
         \<and> (r = None \<longrightarrow> length (written st) = length raw_data)
         \<and> (\<forall>i<length (written st). \<exists>d.
               find_peaks_and_or_valleys fp (raw_data ! i) cfg_reduce_size cfg_smooth_size = Inr d
             \<and> i < length ids
             \<and> written st ! i
                 = spec_record_line (peaks d) (valleys d)
                     (str_replace (str_replace (ids ! i) ''HO_'' []) ''_HUMAN.H10MO'' []) sra
             \<and> (sorted (peaks d) \<longrightarrow> sorted (bp_loop (peaks d) [])))"
proof -
  have run: "categorize_loop fp sra ids raw_data [0 ..< length raw_data]
               \<lparr>rows_by_counts = [], written = []\<rparr> = (st, r)"
    using assms by (simp add: categorize_msd_file_into_tf_regulation_def)
  from loop_lines_any [OF run] obtain ls where ls: "written st = ls"
    "length ls \<le> length raw_data" "r = None \<longrightarrow> length ls = length raw_data"
    "\<forall>k<length ls. \<exists>d.
        find_peaks_and_or_valleys fp (raw_data ! ([0 ..< length raw_data] ! k)) cfg_reduce_size cfg_smooth_size = Inr d
      \<and> [0 ..< length raw_data] ! k < length ids
      \<and> ls ! k = tf_regulation_line (peaks d) (valleys d)
            (clean_id (ids ! ([0 ..< length raw_data] ! k))) sra"
    by auto
  have "\<forall>i<length (written st). \<exists>d.
               find_peaks_and_or_valleys fp (raw_data ! i) cfg_reduce_size cfg_smooth_size = Inr d
             \<and> i < length ids
             \<and> written st ! i
                 = spec_record_line (peaks d) (valleys d)
                     (str_replace (str_replace (ids ! i) ''HO_'' []) ''_HUMAN.H10MO'' []) sra
             \<and> (sorted (peaks d) \<longrightarrow> sorted (bp_loop (peaks d) []))"
  proof (intro allI impI)
    fix i assume i: "i < length (written st)"
    then have i': "i < length raw_data" "i < length ls" using ls(1,2) by simp_all
    then have nth: "[0 ..< length raw_data] ! i = i" by simp
    obtain d where
      "find_peaks_and_or_valleys fp (raw_data ! i) cfg_reduce_size cfg_smooth_size = Inr d"
      "i < length ids"
      "ls ! i = tf_regulation_line (peaks d) (valleys d) (clean_id (ids ! i)) sra"
      using ls(4) i'(2) nth by (metis (no_types, lifting))
    then show "\<exists>d.
               find_peaks_and_or_valleys fp (raw_data ! i) cfg_reduce_size cfg_smooth_size = Inr d
             \<and> i < length ids
             \<and> written st ! i
                 = spec_record_line (peaks d) (valleys d)
                     (str_replace (str_replace (ids ! i) ''HO_'' []) ''_HUMAN.H10MO'' []) sra
             \<and> (sorted (peaks d) \<longrightarrow> sorted (bp_loop (peaks d) []))"
      using ls(1) bp_loop_sorted
      by (auto simp: tf_regulation_line_spec clean_id_def)
  qed
  then show ?thesis using ls(1,2,3) by simp
qed

theorem one_line_per_row_witness:
  "categorize_msd_file_into_tf_regulation example_search ''SRR1'' [''HO_ABC_HUMAN.H10MO'']
       [replicate 120 0]
     = (\<lparr>rows_by_counts = [((0, 0), [0])],
          written = [''0,0,ABC,SRR1,inactive,,,,,'' @ [CHR 0x0A]]\<rparr>, None)
   \<and> length (written \<lparr>rows_by_counts = [((0, 0), [0])],
          written = [''0,0,ABC,SRR1,inactive,,,,,'' @ [CHR 0x0A]]\<rparr>)
       = length [replicate 120 (0::real)]
   \<and> (\<exists>d. find_peaks_and_or_valleys example_search (replicate 120 0) cfg_reduce_size
              cfg_smooth_size = Inr d
          \<and> sorted (peaks d)
          \<and> ''0,0,ABC,SRR1,inactive,,,,,'' @ [CHR 0x0A]
              = spec_record_line (peaks d) (valleys d)
                  (str_replace (str_replace ''HO_ABC_HUMAN.H10MO'' ''HO_'' []) ''_HUMAN.H10MO'' [])
                  ''SRR1'')"
proof -
  have d: "find_peaks_and_or_valleys example_search (replicate 120 0) cfg_reduce_size
              cfg_smooth_size
             = Inr \<lparr>reduced_row = [0, 0], peaks = [], valleys = [],
                    peak_properties = Empty_list, valley_properties = Empty_list,
                    search_calls = []\<rparr>"
    by (simp add: find_peaks_and_or_valleys_def zeros_reduce zeros_scan)
  show ?thesis
    using one_line_per_row [OF example_run] example_run d by simp
qed

subsection \<open>Rows that are too short\<close>




end
